theory Spec2Isabelle
  imports Complex_Main
begin

section \<open>Python string primitives used by the record readers and writers\<close>

text \<open>
  Python 2 \<^verbatim>\<open>str\<close> values are byte strings; they are modelled as \<^typ>\<open>string\<close>.
  \<^verbatim>\<open>str.strip()\<close> without argument removes the six ASCII whitespace bytes from both
  ends, \<^verbatim>\<open>s.split(c)\<close> with a one-character separator cuts at every occurrence of
  \<^verbatim>\<open>c\<close> (empty fields are kept, the empty string gives one empty field), and
  \<^verbatim>\<open>sep.join(xs)\<close> puts \<^verbatim>\<open>sep\<close> between consecutive elements.
\<close>

definition TAB :: char where
  "TAB = CHR 0x09"

definition COMMA :: char where
  "COMMA = CHR '',''"

definition is_space :: "char \<Rightarrow> bool" where
  "is_space c = (c \<in> set [CHR '' '', CHR 0x09, CHR 0x0A, CHR 0x0B, CHR 0x0C, CHR 0x0D])"

definition lstrip :: "string \<Rightarrow> string" where
  "lstrip s = dropWhile is_space s"

definition rstrip :: "string \<Rightarrow> string" where
  "rstrip s = rev (dropWhile is_space (rev s))"

definition strip :: "string \<Rightarrow> string" where
  "strip s = rstrip (lstrip s)"

fun split_on :: "char \<Rightarrow> string \<Rightarrow> string list" where
  "split_on c [] = [[]]"
| "split_on c (x # xs) =
     (if x = c then [] # split_on c xs
      else (case split_on c xs of
              [] \<Rightarrow> [[x]]
            | w # ws \<Rightarrow> (x # w) # ws))"

fun join :: "string \<Rightarrow> string list \<Rightarrow> string" where
  "join sep [] = []"
| "join sep [x] = x"
| "join sep (x # y # ys) = x @ sep @ join sep (y # ys)"

section \<open>Errors\<close>

text \<open>
  Every \<^verbatim>\<open>raise\<close> and failed \<^verbatim>\<open>assert\<close> of the source is a value of this type; a
  function that can raise returns \<open>error + 'a\<close> with \<open>Inl\<close> the exception.  The
  exception classes carry the values their message is built from.
\<close>

datatype error =
    ValueError "string list"
  | IOError "string list"
  | KeyError "string list"
  | IndexError
  | AssertionError
  | EOFError
  | UnpicklingError
  | OrderingViolation

section \<open>io/GroupIO.py: GroupRecord\<close>

record GroupRecord =
  name :: string
  members :: "string list"

text \<open>\<^verbatim>\<open>GroupRecord.__str__\<close>: \<^verbatim>\<open>"{name}\t{members}"\<close> with the members joined by commas.\<close>

definition GroupRecord_str :: "GroupRecord \<Rightarrow> string" where
  "GroupRecord_str r = name r @ [TAB] @ join [COMMA] (members r)"

text \<open>
  \<^verbatim>\<open>GroupRecord.fromString\<close>: the line is stripped, cut at tabs, and refused unless
  exactly two fields result; the second field is cut at commas.
\<close>

definition fromString :: "string \<Rightarrow> error + GroupRecord" where
  "fromString line =
     (let fields = split_on TAB (strip line) in
      if length fields \<noteq> 2
      then Inl (ValueError [''Could not recognize %s as a valid GroupRecord.'', line])
      else Inr \<lparr>name = fields ! 0, members = split_on COMMA (fields ! 1)\<rparr>)"

section \<open>io/MergeGroupIO.py: MergeGroupOperation\<close>

text \<open>
  The constructor takes arbitrary Python objects and checks their classes at run time,
  so its arguments are values of a small universe: \<^verbatim>\<open>None\<close>, a \<^verbatim>\<open>str\<close>, a
  \<^verbatim>\<open>GmapRecord\<close> (of which only \<^verbatim>\<open>seqid\<close> is read, as the text \<^verbatim>\<open>str(seqid)\<close>), or
  an object of any other class, given by the text \<^verbatim>\<open>str\<close> prints for it.
\<close>

datatype pyval =
    PyNone
  | PyStr string
  | PyGmapRecord (seqid: string)
  | PyOther string

fun is_str :: "pyval \<Rightarrow> bool" where
  "is_str (PyStr s) = True"
| "is_str v = False"

fun is_GmapRecord :: "pyval \<Rightarrow> bool" where
  "is_GmapRecord (PyGmapRecord s) = True"
| "is_GmapRecord v = False"

record MergeGroupOperation =
  pbid :: pyval
  group1 :: pyval
  group2 :: pyval
  master_group :: pyval

text \<open>\<^verbatim>\<open>_sanity_check\<close>: the four assertions, in the order of the source.\<close>

definition sanity_check :: "MergeGroupOperation \<Rightarrow> error + unit" where
  "sanity_check self =
     (if \<not> is_str (pbid self) then Inl AssertionError
      else if group1 self = PyNone \<and> group2 self = PyNone then Inl AssertionError
      else if \<not> (is_GmapRecord (group1 self) \<or> group1 self = PyNone \<or> is_str (group1 self))
        then Inl AssertionError
      else if \<not> (is_GmapRecord (group2 self) \<or> group2 self = PyNone \<or> is_str (group2 self))
        then Inl AssertionError
      else Inr ())"

text \<open>\<^verbatim>\<open>MergeGroupOperation.__init__\<close>: the fields are stored, then checked.\<close>

definition MergeGroupOperation_init :: "pyval \<Rightarrow> pyval \<Rightarrow> pyval \<Rightarrow> error + MergeGroupOperation" where
  "MergeGroupOperation_init p g1 g2 =
     (let self = \<lparr>pbid = p, group1 = g1, group2 = g2, master_group = PyNone\<rparr> in
      case sanity_check self of
        Inl e \<Rightarrow> Inl e
      | Inr u \<Rightarrow> Inr self)"

text \<open>The local function \<^verbatim>\<open>to_str\<close> of \<^verbatim>\<open>__str__\<close>.\<close>

fun to_str :: "pyval \<Rightarrow> string" where
  "to_str PyNone = ''NA''"
| "to_str (PyGmapRecord s) = s"
| "to_str (PyStr s) = s"
| "to_str (PyOther s) = s"

definition MergeGroupOperation_str :: "MergeGroupOperation \<Rightarrow> string" where
  "MergeGroupOperation_str self = join [TAB] (map to_str [pbid self, group1 self, group2 self])"

text \<open>
  \<^verbatim>\<open>MegaInfoWriter\<close>: the file is the list of its lines.  The constructor writes the
  header, \<^verbatim>\<open>writeRecord\<close> appends the text of one operation.
\<close>

definition MegaInfoWriter_init :: "string \<Rightarrow> string \<Rightarrow> string list" where
  "MegaInfoWriter_init prefix1 prefix2 = [join [TAB] [''pbid'', prefix1, prefix2]]"

definition writeRecord :: "string list \<Rightarrow> MergeGroupOperation \<Rightarrow> string list" where
  "writeRecord file rec = file @ [MergeGroupOperation_str rec]"

section \<open>Python number formatting: \<^verbatim>\<open>"%.4e" % n\<close>\<close>

text \<open>
  A finite Python float is a dyadic rational and a Python int an integer, so an abundance
  value is taken by its exact value, a \<^typ>\<open>rat\<close>.  The conversion \<^verbatim>\<open>%.4e\<close> prints the
  sign, one digit, a point, four digits, \<^verbatim>\<open>e\<close>, the sign of the decimal exponent and
  at least two digits of it; the five digits are the exact value rounded to nearest,
  ties to even.
\<close>

definition digit_char :: "nat \<Rightarrow> char" where
  "digit_char d = ''0123456789'' ! (d mod 10)"

fun str_nat :: "nat \<Rightarrow> string" where
  "str_nat n = (if n < 10 then [digit_char n] else str_nat (n div 10) @ [digit_char (n mod 10)])"

definition pow10 :: "int \<Rightarrow> rat" where
  "pow10 e = (if 0 \<le> e then 10 ^ nat e else 1 / 10 ^ nat (- e))"

definition round_half_even :: "rat \<Rightarrow> int" where
  "round_half_even x =
     (let f = \<lfloor>x\<rfloor>; r = x - of_int f in
      if r < 1 / 2 then f
      else if 1 / 2 < r then f + 1
      else if even f then f else f + 1)"

text \<open>The decimal exponent of a positive value: \<open>10 ^ e \<le> a < 10 ^ (e + 1)\<close>.\<close>

definition decimal_exponent :: "rat \<Rightarrow> int" where
  "decimal_exponent a =
     (let (p, q) = quotient_of a;
          e0 = int (length (str_nat (nat p))) - int (length (str_nat (nat q)))
      in if pow10 e0 \<le> a then e0 else e0 - 1)"

definition mantissa_str :: "nat \<Rightarrow> string" where
  "mantissa_str m =
     [digit_char (m div 10000), CHR ''.'', digit_char (m div 1000), digit_char (m div 100),
      digit_char (m div 10), digit_char m]"

definition exponent_str :: "int \<Rightarrow> string" where
  "exponent_str e =
     (if e < 0 then ''e-'' else ''e+'') @
     (if nat \<bar>e\<bar> < 10 then CHR ''0'' # str_nat (nat \<bar>e\<bar>) else str_nat (nat \<bar>e\<bar>))"

definition format_4e :: "rat \<Rightarrow> string" where
  "format_4e n =
     (if n = 0 then ''0.0000e+00''
      else
        let a = \<bar>n\<bar>;
            e = decimal_exponent a;
            m = nat (round_half_even (a / pow10 (e - 4)));
            (m', e') = (if m = 100000 then (10000, e + 1) else (m, e))
        in (if n < 0 then ''-'' else '''') @ mantissa_str m' @ exponent_str e')"

text \<open>
  The significant digits a text in scientific notation shows: the digits before its
  \<^verbatim>\<open>e\<close>.
\<close>

definition is_digit :: "char \<Rightarrow> bool" where
  "is_digit c = (c \<in> set ''0123456789'')"

definition significant_digits :: "string \<Rightarrow> nat" where
  "significant_digits s = length (filter is_digit (takeWhile (\<lambda>c. c \<noteq> CHR ''e'') s))"

section \<open>counting/chain\_samples.py\<close>

subsection \<open>The files and tables the chaining reads\<close>

text \<open>
  \<^verbatim>\<open>SampleFiles\<close> (one entry of \<^verbatim>\<open>ChainConfig.samples\<close>) with the four attributes the
  chaining reads.
\<close>

record SampleFiles =
  sample_name :: string
  gff_fn :: string
  group_fn :: string
  abundance_fn :: string

text \<open>The class \<^verbatim>\<open>ChainFiles\<close>, with the default \<^verbatim>\<open>_pprefix='tmp_'\<close>.\<close>

record ChainFiles =
  o_prefix :: string
  o_gff_fn :: string
  o_group_fn :: string
  o_mega_fn :: string

definition ChainFiles_init :: "string \<Rightarrow> ChainFiles" where
  "ChainFiles_init sample =
     (let p = ''tmp_'' @ sample in
      \<lparr>o_prefix = p, o_gff_fn = p @ ''.gff'', o_group_fn = p @ ''.group.txt'',
       o_mega_fn = p @ ''.mega_info.txt''\<rparr>)"

text \<open>
  One record yielded by \<^verbatim>\<open>AbundanceReader\<close>: its \<^verbatim>\<open>pbid\<close> and its metric attributes
  (\<^verbatim>\<open>count_fl\<close>, \<^verbatim>\<open>norm_nfl\<close>, ...) by name; \<^verbatim>\<open>hasattr(r, f)\<close> asks whether \<^verbatim>\<open>f\<close> is among
  them and \<^verbatim>\<open>getattr(r, f)\<close> reads it.  The reader itself is a parameter: the list of
  records it yields for a file name.
\<close>

record AbundanceRecord =
  ab_pbid :: string
  metrics :: "(string \<times> rat) list"

definition hasattr :: "AbundanceRecord \<Rightarrow> string \<Rightarrow> bool" where
  "hasattr r f = (map_of (metrics r) f \<noteq> None)"

text \<open>
  An abundance file lacks a field when none of the records read from it carries it.
\<close>

definition lacks_field :: "AbundanceRecord list \<Rightarrow> string \<Rightarrow> bool" where
  "lacks_field records f = (\<forall>r\<in>set records. \<not> hasattr r f)"

type_synonym abundance_info = "string \<times> string \<rightharpoonup> rat"

text \<open>
  A row of \<^verbatim>\<open>csv.DictReader\<close>: column name to cell.  \<^verbatim>\<open>r[k]\<close> raises \<^verbatim>\<open>KeyError\<close>
  for a column the row does not have.
\<close>

type_synonym row = "string \<rightharpoonup> string"

definition getitem :: "row \<Rightarrow> string \<Rightarrow> error + string" where
  "getitem r k = (case r k of None \<Rightarrow> Inl (KeyError [k]) | Some v \<Rightarrow> Inr v)"

type_synonym mega_info = "string \<times> string \<rightharpoonup> row"

subsection \<open>\<^verbatim>\<open>get_abundance_info\<close>\<close>

text \<open>The inner loop over the records of one sample's abundance file.\<close>

fun read_abundance ::
  "SampleFiles \<Rightarrow> string \<Rightarrow> AbundanceRecord list \<Rightarrow> abundance_info \<Rightarrow> error + abundance_info" where
  "read_abundance sample field_to_use [] info = Inr info"
| "read_abundance sample field_to_use (r # rs) info =
     (if hasattr r field_to_use
      then read_abundance sample field_to_use rs
             (info((sample_name sample, ab_pbid r) \<mapsto> the (map_of (metrics r) field_to_use)))
      else Inl (ValueError [''%s abundance file does not have field %s'',
                            abundance_fn sample, field_to_use]))"

text \<open>The outer loop over the samples.\<close>

fun read_samples ::
  "(string \<Rightarrow> AbundanceRecord list) \<Rightarrow> string \<Rightarrow> SampleFiles list \<Rightarrow> abundance_info
     \<Rightarrow> error + abundance_info" where
  "read_samples AbundanceReader field_to_use [] info = Inr info"
| "read_samples AbundanceReader field_to_use (sample # samples) info =
     (case read_abundance sample field_to_use (AbundanceReader (abundance_fn sample)) info of
        Inl e \<Rightarrow> Inl e
      | Inr info' \<Rightarrow> read_samples AbundanceReader field_to_use samples info')"

definition get_abundance_info ::
  "(string \<Rightarrow> AbundanceRecord list) \<Rightarrow> SampleFiles list \<Rightarrow> string \<Rightarrow> error + abundance_info" where
  "get_abundance_info AbundanceReader samples field_to_use =
     read_samples AbundanceReader field_to_use samples Map.empty"

subsection \<open>\<^verbatim>\<open>get_mega_info_dict\<close>\<close>

fun read_mega :: "string \<Rightarrow> row list \<Rightarrow> mega_info \<Rightarrow> error + mega_info" where
  "read_mega pfx [] d = Inr d"
| "read_mega pfx (r # rs) d =
     (case getitem r ''pbid'' of
        Inl e \<Rightarrow> Inl e
      | Inr p \<Rightarrow> read_mega pfx rs (d((pfx, p) \<mapsto> r)))"

fun read_mega_samples ::
  "(string \<Rightarrow> row list) \<Rightarrow> SampleFiles list \<Rightarrow> mega_info \<Rightarrow> error + mega_info" where
  "read_mega_samples MegaInfoReader [] d = Inr d"
| "read_mega_samples MegaInfoReader (sample # samples) d =
     (let ofs = ChainFiles_init (sample_name sample) in
      case read_mega (o_prefix ofs) (MegaInfoReader (o_mega_fn ofs)) d of
        Inl e \<Rightarrow> Inl e
      | Inr d' \<Rightarrow> read_mega_samples MegaInfoReader samples d')"

definition get_mega_info_dict :: "(string \<Rightarrow> row list) \<Rightarrow> SampleFiles list \<Rightarrow> error + mega_info" where
  "get_mega_info_dict MegaInfoReader samples = read_mega_samples MegaInfoReader samples Map.empty"

subsection \<open>\<^verbatim>\<open>chain_samples\<close>: folding the samples\<close>

text \<open>
  \<^verbatim>\<open>MegaPBTree\<close> is built from a GFF file, a group file and a prefix; what
  \<^verbatim>\<open>add_sample\<close> computes is outside this module, so a call of it is recorded with
  the tree it is called on and its six arguments.
\<close>

record MegaPBTree =
  tree_gff_filename :: string
  tree_group_filename :: string
  self_prefix :: string
  tree_max_fuzzy_junction :: int

record add_sample_call =
  as_tree :: MegaPBTree
  as_gff_filename :: string
  as_group_filename :: string
  as_sample_prefix :: string
  as_o_gff_fn :: string
  as_o_group_fn :: string
  as_o_mega_fn :: string

text \<open>
  The loop \<^verbatim>\<open>for sample in cfg.samples[1:]\<close>: the state is the variable \<^verbatim>\<open>o\<close>, the
  result the calls of \<^verbatim>\<open>add_sample\<close> in the order they are made and the last \<^verbatim>\<open>o\<close>.
\<close>

fun fold_samples :: "int \<Rightarrow> MegaPBTree \<Rightarrow> SampleFiles list \<Rightarrow> add_sample_call list \<times> MegaPBTree" where
  "fold_samples max_fuzzy_junction acc [] = ([], acc)"
| "fold_samples max_fuzzy_junction acc (sample # samples) =
     (let ofs = ChainFiles_init (sample_name sample);
          call = \<lparr>as_tree = acc, as_gff_filename = gff_fn sample,
                  as_group_filename = group_fn sample, as_sample_prefix = sample_name sample,
                  as_o_gff_fn = o_gff_fn ofs, as_o_group_fn = o_group_fn ofs,
                  as_o_mega_fn = o_mega_fn ofs\<rparr>;
          acc' = \<lparr>tree_gff_filename = o_gff_fn ofs, tree_group_filename = o_group_fn ofs,
                  self_prefix = o_prefix ofs, tree_max_fuzzy_junction = max_fuzzy_junction\<rparr>;
          (calls, final) = fold_samples max_fuzzy_junction acc' samples
      in (call # calls, final))"

text \<open>
  The first part of \<^verbatim>\<open>chain_samples\<close>: the tree of the first sample
  (\<^verbatim>\<open>cfg.samples[0]\<close> raises \<^verbatim>\<open>IndexError\<close> when there is none), then the loop.
\<close>

definition chain_fold :: "SampleFiles list \<Rightarrow> int \<Rightarrow> error + add_sample_call list \<times> MegaPBTree" where
  "chain_fold samples max_fuzzy_junction =
     (case samples of
        [] \<Rightarrow> Inl IndexError
      | sample # rest \<Rightarrow>
          Inr (fold_samples max_fuzzy_junction
                 \<lparr>tree_gff_filename = gff_fn sample, tree_group_filename = group_fn sample,
                  self_prefix = sample_name sample,
                  tree_max_fuzzy_junction = max_fuzzy_junction\<rparr>
                 rest))"

subsection \<open>\<^verbatim>\<open>chain_samples\<close>: resolving one row of the last mega info file\<close>

text \<open>
  The two \<^verbatim>\<open>defaultdict(lambda: 'NA')\<close> of one row.  A sample without entry reads as
  \<^verbatim>\<open>'NA'\<close>; the abundances stored are numbers, so \<^verbatim>\<open>n == 'NA'\<close> holds exactly for a
  sample without entry.
\<close>

record resolution =
  chain_to_pbid :: "string \<rightharpoonup> string"
  chain_to_abundance :: "string \<rightharpoonup> rat"

definition pbid_of :: "resolution \<Rightarrow> string \<Rightarrow> string" where
  "pbid_of st c = (case chain_to_pbid st c of None \<Rightarrow> ''NA'' | Some v \<Rightarrow> v)"

text \<open>
  The statement \<^verbatim>\<open>if chain_to_pbid[c] != 'NA': chain_to_abundance[c] = abundance_info[c, chain_to_pbid[c]]\<close>,
  which the source repeats for the last sample, inside the loop and for the first sample.
\<close>

definition record_abundance :: "abundance_info \<Rightarrow> string \<Rightarrow> resolution \<Rightarrow> error + resolution" where
  "record_abundance info c st =
     (if pbid_of st c \<noteq> ''NA''
      then (case info (c, pbid_of st c) of
              None \<Rightarrow> Inl (KeyError [c, pbid_of st c])
            | Some n \<Rightarrow> Inr (st\<lparr>chain_to_abundance := (chain_to_abundance st)(c \<mapsto> n)\<rparr>))
      else Inr st)"

text \<open>
  The loop \<^verbatim>\<open>for c in chain[::-1][1:-1]\<close> with its \<^verbatim>\<open>break\<close>: the result is
  \<^verbatim>\<open>saw_NA\<close>, the current row \<^verbatim>\<open>r\<close> and the two dictionaries.
\<close>

fun walk ::
  "mega_info \<Rightarrow> abundance_info \<Rightarrow> string list \<Rightarrow> row \<Rightarrow> resolution
     \<Rightarrow> error + (bool \<times> row \<times> resolution)" where
  "walk mega_info_d info [] r st = Inr (False, r, st)"
| "walk mega_info_d info (c # cs) r st =
     (let pfx = o_prefix (ChainFiles_init c) in
      case getitem r pfx of
        Inl e \<Rightarrow> Inl e
      | Inr p \<Rightarrow>
          if p = ''NA'' then Inr (True, r, st)
          else (case mega_info_d (pfx, p) of
                  None \<Rightarrow> Inl (KeyError [pfx, p])
                | Some r2 \<Rightarrow>
                    (case getitem r2 c of
                       Inl e \<Rightarrow> Inl e
                     | Inr i \<Rightarrow>
                         (case record_abundance info c
                                 (st\<lparr>chain_to_pbid := (chain_to_pbid st)(c \<mapsto> i)\<rparr>) of
                            Inl e \<Rightarrow> Inl e
                          | Inr st' \<Rightarrow> walk mega_info_d info cs r2 st'))))"

text \<open>
  The row the loop holds in \<^verbatim>\<open>r\<close> when it starts its \<open>k\<close>-th iteration (counted from
  0), if it gets there: the row it started with, replaced at every earlier iteration by
  the row found in \<^verbatim>\<open>mega_info_d\<close>; nothing once the loop has met \<^verbatim>\<open>NA\<close> and stopped.
\<close>

fun row_at :: "mega_info \<Rightarrow> string list \<Rightarrow> row \<Rightarrow> nat \<Rightarrow> row option" where
  "row_at mega_info_d cs r 0 = Some r"
| "row_at mega_info_d [] r (Suc k) = None"
| "row_at mega_info_d (c # cs) r (Suc k) =
     (case r (o_prefix (ChainFiles_init c)) of
        None \<Rightarrow> None
      | Some p \<Rightarrow>
          if p = ''NA'' then None
          else (case mega_info_d (o_prefix (ChainFiles_init c), p) of
                  None \<Rightarrow> None
                | Some r2 \<Rightarrow> row_at mega_info_d cs r2 k))"

text \<open>
  The body of \<^verbatim>\<open>for r in reader\<close> up to the two dictionaries.  \<^verbatim>\<open>chain[-1]\<close> and
  \<^verbatim>\<open>chain[0]\<close> raise \<^verbatim>\<open>IndexError\<close> on an empty chain; the slice
  \<^verbatim>\<open>chain[::-1][1:-1]\<close> is the reversed chain without its first and last element.
\<close>

definition resolve_row ::
  "mega_info \<Rightarrow> abundance_info \<Rightarrow> string list \<Rightarrow> row \<Rightarrow> error + resolution" where
  "resolve_row mega_info_d info names r0 =
     (if names = [] then Inl IndexError
      else
        case getitem r0 (last names) of
          Inl e \<Rightarrow> Inl e
        | Inr i \<Rightarrow>
            (case record_abundance info (last names)
                    \<lparr>chain_to_pbid = [last names \<mapsto> i], chain_to_abundance = Map.empty\<rparr> of
               Inl e \<Rightarrow> Inl e
             | Inr st1 \<Rightarrow>
                 (case walk mega_info_d info (butlast (tl (rev names))) r0 st1 of
                    Inl e \<Rightarrow> Inl e
                  | Inr (saw_NA, r, st2) \<Rightarrow>
                      if \<not> saw_NA
                      then (case getitem r (hd names) of
                              Inl e \<Rightarrow> Inl e
                            | Inr i0 \<Rightarrow>
                                record_abundance info (hd names)
                                  (st2\<lparr>chain_to_pbid := (chain_to_pbid st2)(hd names \<mapsto> i0)\<rparr>))
                      else Inr st2)))"

text \<open>The cells written for sample \<^verbatim>\<open>c\<close> to the two output tables, after the tab.\<close>

definition ids_cell :: "resolution \<Rightarrow> string \<Rightarrow> string" where
  "ids_cell st c = pbid_of st c"

definition count_cell :: "resolution \<Rightarrow> string \<Rightarrow> string" where
  "count_cell st c = (case chain_to_abundance st c of None \<Rightarrow> ''NA'' | Some n \<Rightarrow> format_4e n)"

definition table_line :: "string \<Rightarrow> string list \<Rightarrow> string" where
  "table_line first cells = first @ concat (map (\<lambda>x. TAB # x) cells)"

text \<open>One iteration of \<^verbatim>\<open>for r in reader\<close>: the line of each output table.\<close>

definition chain_row ::
  "mega_info \<Rightarrow> abundance_info \<Rightarrow> string list \<Rightarrow> row \<Rightarrow> error + string \<times> string" where
  "chain_row mega_info_d info names r0 =
     (case resolve_row mega_info_d info names r0 of
        Inl e \<Rightarrow> Inl e
      | Inr st \<Rightarrow>
          (case getitem r0 ''pbid'' of
             Inl e \<Rightarrow> Inl e
           | Inr p \<Rightarrow> Inr (table_line p (map (ids_cell st) names),
                           table_line p (map (count_cell st) names))))"

fun chain_rows ::
  "mega_info \<Rightarrow> abundance_info \<Rightarrow> string list \<Rightarrow> row list \<Rightarrow> error + (string \<times> string) list" where
  "chain_rows mega_info_d info names [] = Inr []"
| "chain_rows mega_info_d info names (r # rs) =
     (case chain_row mega_info_d info names r of
        Inl e \<Rightarrow> Inl e
      | Inr l \<Rightarrow>
          (case chain_rows mega_info_d info names rs of
             Inl e \<Rightarrow> Inl e
           | Inr ls \<Rightarrow> Inr (l # ls)))"

text \<open>
  Two properties of the dictionaries of a row, kept by every step of its resolution.
  \<open>looked_up\<close>: every abundance stored for a sample was read from the abundance table
  under that sample's name and an id other than \<^verbatim>\<open>NA\<close>.  \<open>consistent\<close>: a sample has
  an abundance exactly when its id is not \<^verbatim>\<open>NA\<close>, and it is the one the table has for
  the sample's name and that id.
\<close>

definition consistent :: "abundance_info \<Rightarrow> resolution \<Rightarrow> bool" where
  "consistent info st =
     (\<forall>c. (pbid_of st c = ''NA'' \<longrightarrow> chain_to_abundance st c = None) \<and>
          (pbid_of st c \<noteq> ''NA'' \<longrightarrow>
             (\<exists>v. chain_to_abundance st c = Some v \<and> info (c, pbid_of st c) = Some v)))"

definition looked_up :: "abundance_info \<Rightarrow> resolution \<Rightarrow> bool" where
  "looked_up info st =
     (\<forall>c v. chain_to_abundance st c = Some v \<longrightarrow> (\<exists>i. i \<noteq> ''NA'' \<and> info (c, i) = Some v))"

subsection \<open>\<^verbatim>\<open>chain_samples\<close> as a whole\<close>

text \<open>
  What a run leaves behind: the calls of \<^verbatim>\<open>add_sample\<close>, the lines of
  \<^verbatim>\<open>all_samples.chained_ids.txt\<close> and \<^verbatim>\<open>all_samples.chained_count.txt\<close>, and the
  file copied to \<^verbatim>\<open>all_samples.chained.gff\<close>.  The two readers are parameters;
  \<^verbatim>\<open>MegaInfoReader\<close> gives the rows of the mega info files as the fold has written them.
\<close>

record chained =
  add_sample_calls :: "add_sample_call list"
  chained_ids :: "string list"
  chained_count :: "string list"
  chained_gff_source :: string

definition chain_samples ::
  "(string \<Rightarrow> AbundanceRecord list) \<Rightarrow> (string \<Rightarrow> row list) \<Rightarrow> SampleFiles list \<Rightarrow> string \<Rightarrow> int
     \<Rightarrow> error + chained" where
  "chain_samples AbundanceReader MegaInfoReader samples field_to_use max_fuzzy_junction =
     (case get_abundance_info AbundanceReader samples field_to_use of
        Inl e \<Rightarrow> Inl e
      | Inr info \<Rightarrow>
          (case chain_fold samples max_fuzzy_junction of
             Inl e \<Rightarrow> Inl e
           | Inr (calls, final) \<Rightarrow>
               let names = map sample_name samples
               in (case get_mega_info_dict MegaInfoReader (tl samples) of
                     Inl e \<Rightarrow> Inl e
                   | Inr mega_info_d \<Rightarrow>
                       let header = table_line ''superPBID'' names;
                           reader = MegaInfoReader
                                      (o_mega_fn (ChainFiles_init (sample_name (last samples))))
                       in (case chain_rows mega_info_d info names reader of
                             Inl e \<Rightarrow> Inl e
                           | Inr ls \<Rightarrow>
                               Inr \<lparr>add_sample_calls = calls,
                                    chained_ids = header # map fst ls,
                                    chained_count = header # map snd ls,
                                    chained_gff_source =
                                      o_gff_fn (ChainFiles_init (last names))\<rparr>))))"

section \<open>counting/Count.py: CountRunner\<close>

text \<open>
  The constructor reads the file system twice: \<^verbatim>\<open>op.exists\<close>, and
  \<^verbatim>\<open>cPickle.load(open(pickle_filename, 'rb'))\<close>, which either raises or returns the
  unpickled dictionary (key to value; the value under \<^verbatim>\<open>'HQ'\<close> is the dictionary
  from sample prefix to cluster directory).  Both are parameters.
\<close>

record CountRunner =
  read_stat_fn :: string
  count_abundance_fn :: string
  group_filename :: string
  pickle_filename :: string
  prefix_dict :: "(string \<times> string) list"

definition CountRunner_validate_inputs ::
  "(string \<Rightarrow> bool) \<Rightarrow> string \<Rightarrow> string \<Rightarrow> error + unit" where
  "CountRunner_validate_inputs exists group_fname pickle_fname =
     (if \<not> exists group_fname
      then Inl (IOError [''Input group file '' @ group_fname @ '' does not exist''])
      else if \<not> exists pickle_fname
      then Inl (IOError [''Input hq lq prefix dict pickle file '' @ pickle_fname @
                         '' does not exist''])
      else Inr ())"

text \<open>The classes named by \<^verbatim>\<open>except (ValueError, KeyError, IOError)\<close>.\<close>

fun caught :: "error \<Rightarrow> bool" where
  "caught (ValueError a) = True"
| "caught (KeyError a) = True"
| "caught (IOError a) = True"
| "caught e = False"

definition CountRunner_init ::
  "(string \<Rightarrow> bool) \<Rightarrow> (string \<Rightarrow> error + (string \<rightharpoonup> (string \<times> string) list))
     \<Rightarrow> string \<Rightarrow> string \<Rightarrow> string \<Rightarrow> string \<Rightarrow> error + CountRunner" where
  "CountRunner_init exists cPickle_load group_fname pickle_fname output_read_stat_filename
       output_abundance_filename =
     (case CountRunner_validate_inputs exists group_fname pickle_fname of
        Inl e \<Rightarrow> Inl e
      | Inr u \<Rightarrow>
          let body = (case cPickle_load pickle_fname of
                        Inl e \<Rightarrow> Inl e
                      | Inr a \<Rightarrow>
                          (case a ''HQ'' of
                             None \<Rightarrow> Inl (KeyError [''HQ''])
                           | Some d \<Rightarrow> Inr d))
          in (case body of
                Inl e \<Rightarrow>
                  if caught e
                  then Inl (ValueError [''Could not load sample prefix dict (a['' @ [CHR 0x27] @ ''HQ'' @
                                        [CHR 0x27] @ '']) from pickle '' @ pickle_fname])
                  else Inl e
              | Inr d \<Rightarrow>
                  Inr \<lparr>read_stat_fn = output_read_stat_filename,
                       count_abundance_fn = output_abundance_filename,
                       group_filename = group_fname, pickle_filename = pickle_fname,
                       prefix_dict = d\<rparr>))"

section \<open>collapsing/CollapseIsoforms.py\<close>

subsection \<open>The grouping stage behind \<^verbatim>\<open>Branch.run\<close>\<close>

text \<open>
  Modelled from the spec: the alignment record \<^verbatim>\<open>iter_gmap_sam\<close> yields is not among
  the sources.  Following the AlignmentRecord of the specification it has the query id,
  the reference id, start and end, the strand, and the coverage and identity scores.
  The reference id is of any linearly ordered type: the order of references is the one
  the sorted SAM file uses.
\<close>

datatype strand = Plus | Minus

record 'r AlignmentRecord =
  qID :: string
  sID :: 'r
  sStart :: nat
  sEnd :: nat
  strand_of :: strand
  qCoverage :: rat
  identity :: rat

text \<open>
  Modelled from the spec: \<^verbatim>\<open>iter_gmap_sam\<close> of \<^verbatim>\<open>pbtranscript.io\<close>, the generator
  \<^verbatim>\<open>Branch.run\<close> iterates over, is not among the sources.  The definitions of this
  subsection follow section 4.1 of the specification (LocusGrouper).  This one is the
  order the input must have: by reference id, then by reference start.
\<close>

definition ordered :: "('r::linorder) AlignmentRecord \<Rightarrow> 'r AlignmentRecord \<Rightarrow> bool" where
  "ordered a b = (sID a < sID b \<or> (sID a = sID b \<and> sStart a \<le> sStart b))"

text \<open>
  Modelled from the spec: the state of the generator \<^verbatim>\<open>iter_gmap_sam\<close>, which is not
  among the sources: the record read last, the group being built, the groups completed
  and the ids diverted to the ignored list.
\<close>

record 'r grouper =
  previous :: "'r AlignmentRecord option"
  current :: "'r AlignmentRecord list"
  yielded :: "'r AlignmentRecord list list"
  ignored :: "string list"

text \<open>
  Modelled from the spec: the overlap test of \<^verbatim>\<open>iter_gmap_sam\<close>, which is not among the
  sources.  A record belongs to the group being built when it lies on the same reference
  and starts no later than the group ends, so that a group is a maximal set of records
  whose reference spans transitively overlap.
\<close>

definition overlaps :: "('r::linorder) AlignmentRecord list \<Rightarrow> 'r AlignmentRecord \<Rightarrow> bool" where
  "overlaps records r =
     (records \<noteq> [] \<and> sID r = sID (hd records) \<and> sStart r \<le> Max (set (map sEnd records)))"

text \<open>
  Modelled from the spec: what \<^verbatim>\<open>iter_gmap_sam\<close>, which is not among the sources, does
  with one record.  A record that breaks the order (reference id, reference start)
  raises the ordering violation; a record whose coverage or identity is below its
  threshold goes to the ignored list and is left out of the grouping; any other record
  joins the group being built or, when it does not overlap it, completes that group and
  starts the next.
\<close>

definition grouper_step ::
  "rat \<Rightarrow> rat \<Rightarrow> ('r::linorder) AlignmentRecord \<Rightarrow> 'r grouper \<Rightarrow> error + 'r grouper" where
  "grouper_step min_aln_coverage min_aln_identity r g =
     (if (case previous g of None \<Rightarrow> False | Some p \<Rightarrow> \<not> ordered p r)
      then Inl OrderingViolation
      else if qCoverage r < min_aln_coverage \<or> identity r < min_aln_identity
      then Inr (g\<lparr>previous := Some r, ignored := ignored g @ [qID r]\<rparr>)
      else if current g = [] \<or> overlaps (current g) r
      then Inr (g\<lparr>previous := Some r, current := current g @ [r]\<rparr>)
      else Inr (g\<lparr>previous := Some r, current := [r], yielded := yielded g @ [current g]\<rparr>))"

text \<open>
  Modelled from the spec: the loop of \<^verbatim>\<open>iter_gmap_sam\<close>, which is not among the
  sources, over the records in the order of the file.  A generator hands over its groups
  one at a time, so the groups completed before a violation have been yielded when it is
  raised (raise and abort, no recovery); at the end of the input the last group is
  yielded.
\<close>

fun grouper_feed ::
  "rat \<Rightarrow> rat \<Rightarrow> ('r::linorder) AlignmentRecord list \<Rightarrow> 'r grouper \<Rightarrow> 'r grouper \<times> error option" where
  "grouper_feed min_aln_coverage min_aln_identity [] g =
     (if current g = [] then g else g\<lparr>current := [], yielded := yielded g @ [current g]\<rparr>, None)"
| "grouper_feed min_aln_coverage min_aln_identity (r # rs) g =
     (case grouper_step min_aln_coverage min_aln_identity r g of
        Inl e \<Rightarrow> (g, Some e)
      | Inr g' \<Rightarrow> grouper_feed min_aln_coverage min_aln_identity rs g')"

text \<open>
  Modelled from the spec: the partition of a group by strand that \<^verbatim>\<open>iter_gmap_sam\<close>,
  which is not among the sources, hands over (two records never share a group if their
  strands differ); \<^verbatim>\<open>Branch.run\<close> reads it with \<^verbatim>\<open>recs.itervalues()\<close>.
\<close>

definition sep_by_strand :: "'r AlignmentRecord list \<Rightarrow> 'r AlignmentRecord list list" where
  "sep_by_strand records =
     [filter (\<lambda>r. strand_of r = Plus) records, filter (\<lambda>r. strand_of r = Minus) records]"

text \<open>
  Modelled from the spec: \<^verbatim>\<open>iter_gmap_sam\<close>, which is not among the sources, as a
  whole: the groups it yields, each partitioned by strand, the ignored ids, and the
  ordering violation if it raised one.
\<close>

definition iter_gmap_sam ::
  "rat \<Rightarrow> rat \<Rightarrow> ('r::linorder) AlignmentRecord list
     \<Rightarrow> 'r AlignmentRecord list list list \<times> string list \<times> error option" where
  "iter_gmap_sam min_aln_coverage min_aln_identity sam =
     (let (g, failure) =
            grouper_feed min_aln_coverage min_aln_identity sam
              \<lparr>previous = None, current = [], yielded = [], ignored = []\<rparr>
      in (map sep_by_strand (yielded g), ignored g, failure))"

subsection \<open>\<^verbatim>\<open>Branch.run\<close>\<close>

text \<open>
  \<^verbatim>\<open>Branch.run\<close> hands every non-empty strand group to \<^verbatim>\<open>collapse_sam_records\<close> with
  the next \<^verbatim>\<open>cuff_index\<close>, counted from 1; it catches nothing, so an exception of
  the generator ends it.  Its result: the calls made, the ignored ids, and the
  exception if one was raised.
\<close>

fun collapse_groups ::
  "nat \<Rightarrow> 'r AlignmentRecord list list \<Rightarrow> (nat \<times> 'r AlignmentRecord list) list" where
  "collapse_groups cuff_index [] = []"
| "collapse_groups cuff_index (records # rest) =
     (if length records > 0
      then (cuff_index, records) # collapse_groups (cuff_index + 1) rest
      else collapse_groups cuff_index rest)"

definition Branch_run ::
  "rat \<Rightarrow> rat \<Rightarrow> ('r::linorder) AlignmentRecord list
     \<Rightarrow> (nat \<times> 'r AlignmentRecord list) list \<times> string list \<times> error option" where
  "Branch_run min_aln_coverage min_aln_identity sam =
     (let (recss, ignored_ids, failure) = iter_gmap_sam min_aln_coverage min_aln_identity sam
      in (collapse_groups 1 (concat recss), ignored_ids, failure))"

subsection \<open>\<^verbatim>\<open>CollapsedFiles\<close> and \<^verbatim>\<open>CollapseIsoformsRunner\<close>\<close>

text \<open>
  The runner after \<^verbatim>\<open>__init__\<close>: the prefix of \<^verbatim>\<open>CollapsedFiles\<close> and the
  converted arguments.  The file names are the properties of \<^verbatim>\<open>CollapsedFiles\<close>.
\<close>

record CollapseIsoformsRunner =
  prefix :: string
  allow_extra_5exon :: bool
  isoform_filename :: string
  sam_filename :: string
  collapsed_isoform_filename :: string
  min_aln_coverage :: rat
  min_aln_identity :: rat
  min_flnc_coverage :: int
  max_fuzzy_junction :: int
  skip_5_exon_alt :: bool

definition has_5merge_str :: "CollapseIsoformsRunner \<Rightarrow> string" where
  "has_5merge_str self = (if allow_extra_5exon self then ''5merge'' else ''no5merge'')"

definition good_gff_fn :: "CollapseIsoformsRunner \<Rightarrow> string" where
  "good_gff_fn self = prefix self @ ''.'' @ has_5merge_str self @ ''.collapsed.good.gff''"

definition bad_gff_fn :: "CollapseIsoformsRunner \<Rightarrow> string" where
  "bad_gff_fn self = prefix self @ ''.'' @ has_5merge_str self @ ''.collapsed.bad.gff''"

definition group_fn_of :: "CollapseIsoformsRunner \<Rightarrow> string" where
  "group_fn_of self = prefix self @ ''.'' @ has_5merge_str self @ ''.collapsed.group.txt''"

definition ignored_ids_txt_fn :: "CollapseIsoformsRunner \<Rightarrow> string" where
  "ignored_ids_txt_fn self = prefix self @ ''.'' @ has_5merge_str self @ ''.ignored_ids.txt''"

definition good_fuzzy_gff_fn :: "CollapseIsoformsRunner \<Rightarrow> string" where
  "good_fuzzy_gff_fn self = good_gff_fn self @ ''.fuzzy''"

definition good_unfuzzy_gff_fn :: "CollapseIsoformsRunner \<Rightarrow> string" where
  "good_unfuzzy_gff_fn self = good_gff_fn self @ ''.unfuzzy''"

definition bad_fuzzy_gff_fn :: "CollapseIsoformsRunner \<Rightarrow> string" where
  "bad_fuzzy_gff_fn self = bad_gff_fn self @ ''.fuzzy''"

definition bad_unfuzzy_gff_fn :: "CollapseIsoformsRunner \<Rightarrow> string" where
  "bad_unfuzzy_gff_fn self = bad_gff_fn self @ ''.unfuzzy''"

definition fuzzy_group_fn :: "CollapseIsoformsRunner \<Rightarrow> string" where
  "fuzzy_group_fn self = group_fn_of self @ ''.fuzzy''"

definition unfuzzy_group_fn :: "CollapseIsoformsRunner \<Rightarrow> string" where
  "unfuzzy_group_fn self = group_fn_of self @ ''.unfuzzy''"

definition shall_collapse_fuzzy_junctions :: "CollapseIsoformsRunner \<Rightarrow> bool" where
  "shall_collapse_fuzzy_junctions self = (max_fuzzy_junction self > 0)"

text \<open>
  The stages \<^verbatim>\<open>run\<close> calls are outside this module (\<^verbatim>\<open>Branch\<close> apart); a call is
  recorded with its keyword arguments, in the order of the call.
  \<^item> \<open>Call_Branch_run\<close>: \<^verbatim>\<open>Branch(isoform_filename, sam_filename, cov_threshold,
    min_aln_coverage, min_aln_identity)\<close> followed by \<^verbatim>\<open>b.run(allow_extra_5exon,
    skip_5_exon_alt, ignored_ids_fn, good_gff_fn, bad_gff_fn, group_fn)\<close>;
  \<^item> \<open>Call_collapse_fuzzy_junctions\<close>: \<^verbatim>\<open>gff_filename, group_filename,
    fuzzy_gff_filename, fuzzy_group_filename, allow_extra_5exon, max_fuzzy_junction\<close>;
  \<^item> \<open>Call_ln\<close>: source and destination;
  \<^item> \<open>Call_pick_rep\<close>: \<^verbatim>\<open>isoform_filename, gff_filename, group_filename,
    output_filename, pick_least_err_instead, bad_gff_filename\<close>.
\<close>

datatype call =
    Call_Branch_run string string int rat rat bool bool string string string string
  | Call_collapse_fuzzy_junctions string string string string bool int
  | Call_ln string string
  | Call_pick_rep string string string string bool string

fun is_collapse_fuzzy_junctions :: "call \<Rightarrow> bool" where
  "is_collapse_fuzzy_junctions (Call_collapse_fuzzy_junctions a b c d e f) = True"
| "is_collapse_fuzzy_junctions c = False"

fun is_pick_rep :: "call \<Rightarrow> bool" where
  "is_pick_rep (Call_pick_rep a b c d e f) = True"
| "is_pick_rep c = False"

text \<open>
  \<^verbatim>\<open>validate_inputs\<close>: the two existence checks, then
  \<^verbatim>\<open>ContigSetReaderWrapper.check_ids_unique\<close>, a parameter that returns or raises.
\<close>

definition validate_inputs ::
  "(string \<Rightarrow> bool) \<Rightarrow> (string \<Rightarrow> error option) \<Rightarrow> CollapseIsoformsRunner \<Rightarrow> error + unit" where
  "validate_inputs exists check_ids_unique self =
     (if \<not> exists (isoform_filename self)
      then Inl (IOError [''Input isoforms file '' @ isoform_filename self @ '' does not exist''])
      else if \<not> exists (sam_filename self)
      then Inl (IOError [''Input SAM file '' @ sam_filename self @ '' does not exist''])
      else (case check_ids_unique (isoform_filename self) of
              Some e \<Rightarrow> Inl e
            | None \<Rightarrow> Inr ()))"

text \<open>The calls of \<^verbatim>\<open>run\<close> after the validation, in program order.\<close>

definition run_calls :: "CollapseIsoformsRunner \<Rightarrow> call list" where
  "run_calls self =
     [Call_Branch_run (isoform_filename self) (sam_filename self) (min_flnc_coverage self)
        (min_aln_coverage self) (min_aln_identity self) (allow_extra_5exon self)
        (skip_5_exon_alt self) (ignored_ids_txt_fn self) (good_unfuzzy_gff_fn self)
        (bad_unfuzzy_gff_fn self) (unfuzzy_group_fn self)] @
     (if shall_collapse_fuzzy_junctions self
      then [Call_collapse_fuzzy_junctions (good_unfuzzy_gff_fn self) (unfuzzy_group_fn self)
              (good_fuzzy_gff_fn self) (fuzzy_group_fn self) (allow_extra_5exon self)
              (max_fuzzy_junction self),
            Call_ln (good_fuzzy_gff_fn self) (good_gff_fn self),
            Call_ln (fuzzy_group_fn self) (group_fn_of self)]
      else [Call_ln (good_unfuzzy_gff_fn self) (good_gff_fn self),
            Call_ln (unfuzzy_group_fn self) (group_fn_of self)]) @
     (let pick_least_err_instead = \<not> allow_extra_5exon self in
      [Call_pick_rep (isoform_filename self) (good_gff_fn self) (group_fn_of self)
         (collapsed_isoform_filename self) pick_least_err_instead (bad_gff_fn self)])"

text \<open>
  Calls are made one after the other; a call that raises ends the run, none is caught.
  \<open>raises\<close> says for each call whether it raises, and what.
\<close>

fun perform :: "(call \<Rightarrow> error option) \<Rightarrow> call list \<Rightarrow> call list \<times> error option" where
  "perform raises [] = ([], None)"
| "perform raises (c # cs) =
     (case raises c of
        Some e \<Rightarrow> ([c], Some e)
      | None \<Rightarrow> (let (made, failure) = perform raises cs in (c # made, failure)))"

text \<open>\<^verbatim>\<open>CollapseIsoformsRunner.run\<close>: the calls made, and the exception that ended it, if any.\<close>

definition run ::
  "(string \<Rightarrow> bool) \<Rightarrow> (string \<Rightarrow> error option) \<Rightarrow> (call \<Rightarrow> error option)
     \<Rightarrow> CollapseIsoformsRunner \<Rightarrow> call list \<times> error option" where
  "run exists check_ids_unique raises self =
     (case validate_inputs exists check_ids_unique self of
        Inl e \<Rightarrow> ([], Some e)
      | Inr u \<Rightarrow> perform raises (run_calls self))"

section \<open>Properties of the string primitives\<close>

lemma split_on_nonempty: "split_on c s \<noteq> []"
  by (induction s) (auto split: list.splits)

lemma split_on_notin: "c \<notin> set s \<Longrightarrow> split_on c s = [s]"
  by (induction s) auto

lemma split_on_append: "c \<notin> set a \<Longrightarrow> split_on c (a @ c # b) = a # split_on c b"
  by (induction a) auto

lemma split_on_join:
  "xs \<noteq> [] \<Longrightarrow> \<forall>x\<in>set xs. c \<notin> set x \<Longrightarrow> split_on c (join [c] xs) = xs"
proof (induction "[c]" xs rule: join.induct)
  case 1
  then show ?case by simp
next
  case (2 x)
  then show ?case by (simp add: split_on_notin)
next
  case (3 x y ys)
  then show ?case by (simp add: split_on_append)
qed

lemma join_split_on: "join [c] (split_on c s) = s"
proof (induction s)
  case Nil
  then show ?case by simp
next
  case (Cons x s)
  obtain w ws where "split_on c s = w # ws"
    using split_on_nonempty [of c s] by (cases "split_on c s") auto
  with Cons show ?case by (cases ws) auto
qed

lemma set_join: "set (join sep xs) \<subseteq> set sep \<union> \<Union> (set ` set xs)"
  by (induction sep xs rule: join.induct) auto

lemma TAB_neq_COMMA: "TAB \<noteq> COMMA"
  by (simp add: TAB_def COMMA_def)

section \<open>GroupRecord: serialisation and parsing\<close>

lemma fromString_str_implies_stripped:
  assumes "fromString (GroupRecord_str r) = Inr r"
  shows "strip (GroupRecord_str r) = GroupRecord_str r"
proof -
  let ?fs = "split_on TAB (strip (GroupRecord_str r))"
  from assms have len: "length ?fs = 2"
    by (auto simp: fromString_def Let_def split: if_splits)
  then obtain f0 f1 where fs: "?fs = [f0, f1]"
    by (cases ?fs; cases "tl ?fs") auto
  from assms fs have n: "name r = f0" and m: "members r = split_on COMMA f1"
    by (auto simp: fromString_def Let_def split: if_splits)
  have "strip (GroupRecord_str r) = join [TAB] ?fs"
    by (simp only: join_split_on)
  also have "\<dots> = f0 @ [TAB] @ f1"
    by (simp add: fs)
  also have "f1 = join [COMMA] (split_on COMMA f1)"
    by (simp only: join_split_on)
  finally show ?thesis
    using n m by (simp add: GroupRecord_str_def)
qed

lemma fromString_stripped_str:
  assumes "TAB \<notin> set (name r)" and "members r \<noteq> []"
    and "\<forall>m\<in>set (members r). TAB \<notin> set m \<and> COMMA \<notin> set m"
    and "strip (GroupRecord_str r) = GroupRecord_str r"
  shows "fromString (GroupRecord_str r) = Inr r"
proof -
  let ?J = "join [COMMA] (members r)"
  have "TAB \<notin> set ?J"
    using set_join [of "[COMMA]" "members r"] assms(3) TAB_neq_COMMA by auto
  then have "split_on TAB (name r @ TAB # ?J) = [name r, ?J]"
    using assms(1) by (simp add: split_on_append split_on_notin)
  moreover have "split_on COMMA ?J = members r"
    using assms(2,3) by (simp add: split_on_join)
  ultimately show ?thesis
    using assms(4) by (simp add: fromString_def GroupRecord_str_def)
qed

text \<open>
  C10, as the code has it.  \<^verbatim>\<open>fromString\<close> strips the line before it cuts it, so a
  record whose name has no tab and whose members, at least one, have neither tab nor
  comma is read back from its own text exactly when that text neither starts nor ends
  with whitespace; and \<^verbatim>\<open>fromString\<close> raises \<^verbatim>\<open>ValueError\<close> exactly on the lines
  that, once stripped, do not cut into two tab-separated fields.
\<close>

theorem GroupRecord_roundtrip_stripped:
  "(TAB \<notin> set (name r) \<and> members r \<noteq> [] \<and>
    (\<forall>m\<in>set (members r). TAB \<notin> set m \<and> COMMA \<notin> set m) \<longrightarrow>
      (fromString (GroupRecord_str r) = Inr r \<longleftrightarrow>
         strip (GroupRecord_str r) = GroupRecord_str r)) \<and>
   (length (split_on TAB (strip line)) \<noteq> 2 \<longrightarrow>
      fromString line =
        Inl (ValueError [''Could not recognize %s as a valid GroupRecord.'', line])) \<and>
   (length (split_on TAB (strip line)) = 2 \<longrightarrow> (\<exists>g. fromString line = Inr g))"
proof (intro conjI impI)
  assume "TAB \<notin> set (name r) \<and> members r \<noteq> [] \<and>
    (\<forall>m\<in>set (members r). TAB \<notin> set m \<and> COMMA \<notin> set m)"
  then show "fromString (GroupRecord_str r) = Inr r \<longleftrightarrow>
      strip (GroupRecord_str r) = GroupRecord_str r"
    using fromString_str_implies_stripped [of r] fromString_stripped_str [of r] by blast
next
  assume "length (split_on TAB (strip line)) \<noteq> 2"
  then show "fromString line =
      Inl (ValueError [''Could not recognize %s as a valid GroupRecord.'', line])"
    by (simp add: fromString_def)
next
  assume "length (split_on TAB (strip line)) = 2"
  then show "\<exists>g. fromString line = Inr g"
    by (simp add: fromString_def Let_def)
qed

theorem GroupRecord_roundtrip_stripped_witness:
  "fromString (GroupRecord_str \<lparr>name = ''PB.1.1'', members = [''m1'', ''m2'']\<rparr>) =
     Inr \<lparr>name = ''PB.1.1'', members = [''m1'', ''m2'']\<rparr> \<and>
   fromString ''PB.1.1'' =
     Inl (ValueError [''Could not recognize %s as a valid GroupRecord.'', ''PB.1.1'']) \<and>
   (\<exists>g. fromString (''a'' @ [TAB] @ ''b'') = Inr g)"
proof -
  let ?r = "\<lparr>name = ''PB.1.1'', members = [''m1'', ''m2'']\<rparr>"
  have pre: "TAB \<notin> set (name ?r) \<and> members ?r \<noteq> [] \<and>
      (\<forall>m\<in>set (members ?r). TAB \<notin> set m \<and> COMMA \<notin> set m)"
    by (simp add: TAB_def COMMA_def)
  have stripped: "strip (GroupRecord_str ?r) = GroupRecord_str ?r"
    by (simp add: strip_def lstrip_def rstrip_def is_space_def GroupRecord_str_def
        TAB_def COMMA_def)
  have one: "length (split_on TAB (strip ''PB.1.1'')) \<noteq> 2"
    by (simp add: strip_def lstrip_def rstrip_def is_space_def TAB_def)
  have two: "length (split_on TAB (strip (''a'' @ [TAB] @ ''b''))) = 2"
    by (simp add: strip_def lstrip_def rstrip_def is_space_def TAB_def)
  from GroupRecord_roundtrip_stripped [of ?r "''PB.1.1''"] pre stripped one
  have a: "fromString (GroupRecord_str ?r) = Inr ?r"
    and b: "fromString ''PB.1.1'' =
      Inl (ValueError [''Could not recognize %s as a valid GroupRecord.'', ''PB.1.1''])"
    by blast+
  from GroupRecord_roundtrip_stripped [of ?r "''a'' @ [TAB] @ ''b''"] two
  have c: "\<exists>g. fromString (''a'' @ [TAB] @ ''b'') = Inr g"
    by blast
  from a b c show ?thesis by blast
qed

text \<open>
  C10 as it is stated fails on the code.  The record named \<^verbatim>\<open>" a"\<close> with the one
  member \<^verbatim>\<open>"m"\<close> meets every condition of the claim and is read back with the name
  \<^verbatim>\<open>"a"\<close>; and the line \<^verbatim>\<open>"a\tb\t"\<close>, which cuts into three tab-separated fields,
  raises nothing.
\<close>

theorem GroupRecord_roundtrip_counterexample:
  "TAB \<notin> set '' a'' \<and> [''m''] \<noteq> [] \<and> TAB \<notin> set ''m'' \<and> COMMA \<notin> set ''m'' \<and>
   fromString (GroupRecord_str \<lparr>name = '' a'', members = [''m'']\<rparr>) =
     Inr \<lparr>name = ''a'', members = [''m'']\<rparr> \<and>
   \<lparr>name = ''a'', members = [''m'']\<rparr> \<noteq> \<lparr>name = '' a'', members = [''m'']\<rparr> \<and>
   split_on TAB (''a'' @ [TAB] @ ''b'' @ [TAB]) = [''a'', ''b'', ''''] \<and>
   fromString (''a'' @ [TAB] @ ''b'' @ [TAB]) = Inr \<lparr>name = ''a'', members = [''b'']\<rparr>"
  by (simp add: fromString_def strip_def lstrip_def rstrip_def is_space_def GroupRecord_str_def
      TAB_def COMMA_def)

section \<open>MergeGroupOperation: the sanity check\<close>

text \<open>
  C9.  A \<^verbatim>\<open>MergeGroupOperation\<close> whose construction succeeds has a \<^verbatim>\<open>str\<close> as pbid and
  not both parents \<^verbatim>\<open>None\<close>; the construction with both parents \<^verbatim>\<open>None\<close> fails the
  sanity check; the text of an operation is its three fields joined with tabs, a
  \<^verbatim>\<open>None\<close> parent written as \<^verbatim>\<open>NA\<close>, and this text is what \<^verbatim>\<open>writeRecord\<close> appends.
\<close>

theorem MergeGroupOperation_sane:
  "(MergeGroupOperation_init p g1 g2 = Inr m \<longrightarrow>
      (\<exists>s. p = PyStr s) \<and> \<not> (g1 = PyNone \<and> g2 = PyNone) \<and>
      pbid m = p \<and> group1 m = g1 \<and> group2 m = g2) \<and>
   MergeGroupOperation_init p PyNone PyNone = Inl AssertionError \<and>
   to_str PyNone = ''NA'' \<and>
   MergeGroupOperation_str m =
     to_str (pbid m) @ [TAB] @ to_str (group1 m) @ [TAB] @ to_str (group2 m) \<and>
   writeRecord file m = file @ [MergeGroupOperation_str m]"
proof -
  have "is_str p \<Longrightarrow> \<exists>s. p = PyStr s"
    by (cases p) auto
  then show ?thesis
    by (auto simp: MergeGroupOperation_init_def sanity_check_def MergeGroupOperation_str_def
        writeRecord_def Let_def split: if_splits)
qed

theorem MergeGroupOperation_sane_witness:
  "MergeGroupOperation_init (PyStr ''PB.1.1'') PyNone (PyStr ''PB.2.1'') =
     Inr \<lparr>pbid = PyStr ''PB.1.1'', group1 = PyNone, group2 = PyStr ''PB.2.1'',
          master_group = PyNone\<rparr> \<and>
   (\<exists>s. PyStr ''PB.1.1'' = PyStr s) \<and> \<not> (PyNone = PyNone \<and> PyStr ''PB.2.1'' = PyNone) \<and>
   MergeGroupOperation_str
     \<lparr>pbid = PyStr ''PB.1.1'', group1 = PyNone, group2 = PyStr ''PB.2.1'',
      master_group = PyNone\<rparr> = ''PB.1.1'' @ [TAB] @ ''NA'' @ [TAB] @ ''PB.2.1''"
proof -
  let ?m = "\<lparr>pbid = PyStr ''PB.1.1'', group1 = PyNone, group2 = PyStr ''PB.2.1'',
             master_group = PyNone\<rparr>"
  have ok: "MergeGroupOperation_init (PyStr ''PB.1.1'') PyNone (PyStr ''PB.2.1'') = Inr ?m"
    by (simp add: MergeGroupOperation_init_def sanity_check_def)
  with MergeGroupOperation_sane [of "PyStr ''PB.1.1''" PyNone "PyStr ''PB.2.1''" ?m]
  show ?thesis by simp
qed

section \<open>CollapseIsoformsRunner: the calls of a run\<close>

lemma perform_prefix: "perform raises cs = (made, failure) \<Longrightarrow> set made \<subseteq> set cs"
  by (induction cs arbitrary: made failure) (auto split: option.splits prod.splits)

lemma perform_complete: "perform raises cs = (made, None) \<Longrightarrow> made = cs"
  by (induction cs arbitrary: made) (auto split: option.splits prod.splits)

lemma run_made_subset:
  "run exists check_ids_unique raises self = (made, failure) \<Longrightarrow> set made \<subseteq> set (run_calls self)"
  by (auto simp: run_def split: sum.splits dest: perform_prefix)

lemma run_complete:
  "run exists check_ids_unique raises self = (made, None) \<Longrightarrow> made = run_calls self"
  by (auto simp: run_def split: sum.splits dest: perform_complete)

text \<open>
  C2.  With \<^verbatim>\<open>max_fuzzy_junction = 0\<close> no run calls \<^verbatim>\<open>collapse_fuzzy_junctions\<close>, whatever
  ends it, and the only links made onto the final \<^verbatim>\<open>good.gff\<close> and \<^verbatim>\<open>group.txt\<close> come
  from the unfuzzy files; a run that completes has made both links.  With
  \<^verbatim>\<open>max_fuzzy_junction > 0\<close> the only links onto the final files come from the fuzzy
  files, and a run that completes has called \<^verbatim>\<open>collapse_fuzzy_junctions\<close> on the
  unfuzzy files and made both links.
\<close>

theorem fuzzy_stage_gate:
  assumes "run exists check_ids_unique raises self = (made, failure)"
  shows "(max_fuzzy_junction self = 0 \<longrightarrow>
            (\<forall>c\<in>set made. \<not> is_collapse_fuzzy_junctions c) \<and>
            (\<forall>src. Call_ln src (good_gff_fn self) \<in> set made \<longrightarrow> src = good_unfuzzy_gff_fn self) \<and>
            (\<forall>src. Call_ln src (group_fn_of self) \<in> set made \<longrightarrow> src = unfuzzy_group_fn self) \<and>
            (failure = None \<longrightarrow>
               Call_ln (good_unfuzzy_gff_fn self) (good_gff_fn self) \<in> set made \<and>
               Call_ln (unfuzzy_group_fn self) (group_fn_of self) \<in> set made)) \<and>
         (max_fuzzy_junction self > 0 \<longrightarrow>
            (\<forall>src. Call_ln src (good_gff_fn self) \<in> set made \<longrightarrow> src = good_fuzzy_gff_fn self) \<and>
            (\<forall>src. Call_ln src (group_fn_of self) \<in> set made \<longrightarrow> src = fuzzy_group_fn self) \<and>
            (failure = None \<longrightarrow>
               Call_collapse_fuzzy_junctions (good_unfuzzy_gff_fn self) (unfuzzy_group_fn self)
                 (good_fuzzy_gff_fn self) (fuzzy_group_fn self) (allow_extra_5exon self)
                 (max_fuzzy_junction self) \<in> set made \<and>
               Call_ln (good_fuzzy_gff_fn self) (good_gff_fn self) \<in> set made \<and>
               Call_ln (fuzzy_group_fn self) (group_fn_of self) \<in> set made))"
proof -
  have neq: "good_gff_fn self \<noteq> group_fn_of self"
    by (simp add: good_gff_fn_def group_fn_of_def)
  have sub: "set made \<subseteq> set (run_calls self)"
    using assms by (rule run_made_subset)
  have full: "failure = None \<Longrightarrow> made = run_calls self"
    using assms run_complete by blast
  show ?thesis
  proof (intro conjI impI)
    assume z: "max_fuzzy_junction self = 0"
    show "\<forall>c\<in>set made. \<not> is_collapse_fuzzy_junctions c"
      using sub z by (auto simp: run_calls_def shall_collapse_fuzzy_junctions_def)
    show "\<forall>src. Call_ln src (good_gff_fn self) \<in> set made \<longrightarrow> src = good_unfuzzy_gff_fn self"
      using sub z neq by (auto simp: run_calls_def shall_collapse_fuzzy_junctions_def)
    show "\<forall>src. Call_ln src (group_fn_of self) \<in> set made \<longrightarrow> src = unfuzzy_group_fn self"
      using sub z neq by (auto simp: run_calls_def shall_collapse_fuzzy_junctions_def)
    { assume "failure = None"
      then have m: "made = run_calls self" by (rule full)
      show "Call_ln (good_unfuzzy_gff_fn self) (good_gff_fn self) \<in> set made"
        using z by (simp add: m run_calls_def shall_collapse_fuzzy_junctions_def)
      show "Call_ln (unfuzzy_group_fn self) (group_fn_of self) \<in> set made"
        using z by (simp add: m run_calls_def shall_collapse_fuzzy_junctions_def) }
  next
    assume p: "max_fuzzy_junction self > 0"
    show "\<forall>src. Call_ln src (good_gff_fn self) \<in> set made \<longrightarrow> src = good_fuzzy_gff_fn self"
      using sub p neq by (auto simp: run_calls_def shall_collapse_fuzzy_junctions_def)
    show "\<forall>src. Call_ln src (group_fn_of self) \<in> set made \<longrightarrow> src = fuzzy_group_fn self"
      using sub p neq by (auto simp: run_calls_def shall_collapse_fuzzy_junctions_def)
    { assume "failure = None"
      then have m: "made = run_calls self" by (rule full)
      show "Call_collapse_fuzzy_junctions (good_unfuzzy_gff_fn self) (unfuzzy_group_fn self)
                 (good_fuzzy_gff_fn self) (fuzzy_group_fn self) (allow_extra_5exon self)
                 (max_fuzzy_junction self) \<in> set made"
        using p by (simp add: m run_calls_def shall_collapse_fuzzy_junctions_def)
      show "Call_ln (good_fuzzy_gff_fn self) (good_gff_fn self) \<in> set made"
        using p by (simp add: m run_calls_def shall_collapse_fuzzy_junctions_def)
      show "Call_ln (fuzzy_group_fn self) (group_fn_of self) \<in> set made"
        using p by (simp add: m run_calls_def shall_collapse_fuzzy_junctions_def) }
  qed
qed

theorem fuzzy_stage_gate_witness:
  "(let r0 = \<lparr>prefix = ''out'', allow_extra_5exon = False, isoform_filename = ''hq.fasta'',
              sam_filename = ''sorted.sam'', collapsed_isoform_filename = ''out.fasta'',
              min_aln_coverage = 99 / 100, min_aln_identity = 95 / 100, min_flnc_coverage = 2,
              max_fuzzy_junction = 0, skip_5_exon_alt = False\<rparr>;
        made0 = fst (run (\<lambda>f. True) (\<lambda>f. None) (\<lambda>c. None) r0);
        made5 = fst (run (\<lambda>f. True) (\<lambda>f. None) (\<lambda>c. None) (r0\<lparr>max_fuzzy_junction := 5\<rparr>))
    in (\<forall>c\<in>set made0. \<not> is_collapse_fuzzy_junctions c) \<and>
       Call_ln ''out.no5merge.collapsed.good.gff.unfuzzy'' ''out.no5merge.collapsed.good.gff''
         \<in> set made0 \<and>
       Call_ln ''out.no5merge.collapsed.group.txt.unfuzzy'' ''out.no5merge.collapsed.group.txt''
         \<in> set made0 \<and>
       Call_collapse_fuzzy_junctions ''out.no5merge.collapsed.good.gff.unfuzzy''
         ''out.no5merge.collapsed.group.txt.unfuzzy'' ''out.no5merge.collapsed.good.gff.fuzzy''
         ''out.no5merge.collapsed.group.txt.fuzzy'' False 5 \<in> set made5 \<and>
       Call_ln ''out.no5merge.collapsed.good.gff.fuzzy'' ''out.no5merge.collapsed.good.gff''
         \<in> set made5 \<and>
       Call_ln ''out.no5merge.collapsed.group.txt.fuzzy'' ''out.no5merge.collapsed.group.txt''
         \<in> set made5)"
proof -
  let ?r0 = "\<lparr>prefix = ''out'', allow_extra_5exon = False, isoform_filename = ''hq.fasta'',
              sam_filename = ''sorted.sam'', collapsed_isoform_filename = ''out.fasta'',
              min_aln_coverage = 99 / 100, min_aln_identity = 95 / 100, min_flnc_coverage = 2,
              max_fuzzy_junction = 0, skip_5_exon_alt = False\<rparr>"
  let ?r5 = "?r0\<lparr>max_fuzzy_junction := 5\<rparr>"
  have run0: "run (\<lambda>f. True) (\<lambda>f. None) (\<lambda>c. None) ?r0 = (run_calls ?r0, None)"
    by (simp add: run_def validate_inputs_def run_calls_def shall_collapse_fuzzy_junctions_def)
  have run5: "run (\<lambda>f. True) (\<lambda>f. None) (\<lambda>c. None) ?r5 = (run_calls ?r5, None)"
    by (simp add: run_def validate_inputs_def run_calls_def shall_collapse_fuzzy_junctions_def)
  have names0: "good_gff_fn ?r0 = ''out.no5merge.collapsed.good.gff''"
    "group_fn_of ?r0 = ''out.no5merge.collapsed.group.txt''"
    "good_unfuzzy_gff_fn ?r0 = ''out.no5merge.collapsed.good.gff.unfuzzy''"
    "unfuzzy_group_fn ?r0 = ''out.no5merge.collapsed.group.txt.unfuzzy''"
    by (simp_all add: good_gff_fn_def group_fn_of_def good_unfuzzy_gff_fn_def
        unfuzzy_group_fn_def has_5merge_str_def)
  have names5: "good_gff_fn ?r5 = ''out.no5merge.collapsed.good.gff''"
    "group_fn_of ?r5 = ''out.no5merge.collapsed.group.txt''"
    "good_unfuzzy_gff_fn ?r5 = ''out.no5merge.collapsed.good.gff.unfuzzy''"
    "unfuzzy_group_fn ?r5 = ''out.no5merge.collapsed.group.txt.unfuzzy''"
    "good_fuzzy_gff_fn ?r5 = ''out.no5merge.collapsed.good.gff.fuzzy''"
    "fuzzy_group_fn ?r5 = ''out.no5merge.collapsed.group.txt.fuzzy''"
    by (simp_all add: good_gff_fn_def group_fn_of_def good_unfuzzy_gff_fn_def
        unfuzzy_group_fn_def good_fuzzy_gff_fn_def fuzzy_group_fn_def has_5merge_str_def)
  have a: "max_fuzzy_junction ?r0 = 0" and b: "max_fuzzy_junction ?r5 > 0"
    by simp_all
  from fuzzy_stage_gate [OF run0] a
  have g0: "(\<forall>c\<in>set (run_calls ?r0). \<not> is_collapse_fuzzy_junctions c) \<and>
      Call_ln (good_unfuzzy_gff_fn ?r0) (good_gff_fn ?r0) \<in> set (run_calls ?r0) \<and>
      Call_ln (unfuzzy_group_fn ?r0) (group_fn_of ?r0) \<in> set (run_calls ?r0)"
    by blast
  from fuzzy_stage_gate [OF run5] b
  have g5: "Call_collapse_fuzzy_junctions (good_unfuzzy_gff_fn ?r5) (unfuzzy_group_fn ?r5)
        (good_fuzzy_gff_fn ?r5) (fuzzy_group_fn ?r5) (allow_extra_5exon ?r5)
        (max_fuzzy_junction ?r5) \<in> set (run_calls ?r5) \<and>
      Call_ln (good_fuzzy_gff_fn ?r5) (good_gff_fn ?r5) \<in> set (run_calls ?r5) \<and>
      Call_ln (fuzzy_group_fn ?r5) (group_fn_of ?r5) \<in> set (run_calls ?r5)"
    by blast
  from g0 g5 show ?thesis
    unfolding Let_def run0 run5 fst_conv names0 names5 by simp
qed

text \<open>
  C4.  Every call of \<^verbatim>\<open>pick_rep\<close> a run makes has \<^verbatim>\<open>pick_least_err_instead\<close> true
  exactly when \<^verbatim>\<open>allow_extra_5exon\<close> is false, and a run that completes makes exactly
  one such call, on the final GFF and group file.
\<close>

theorem representative_policy:
  assumes "run exists check_ids_unique raises self = (made, failure)"
  shows "(\<forall>a b c d flag f. Call_pick_rep a b c d flag f \<in> set made \<longrightarrow>
            (flag \<longleftrightarrow> \<not> allow_extra_5exon self)) \<and>
         (failure = None \<longrightarrow>
            filter is_pick_rep made =
              [Call_pick_rep (isoform_filename self) (good_gff_fn self) (group_fn_of self)
                 (collapsed_isoform_filename self) (\<not> allow_extra_5exon self) (bad_gff_fn self)])"
proof (intro conjI impI)
  have sub: "set made \<subseteq> set (run_calls self)"
    using assms by (rule run_made_subset)
  show "\<forall>a b c d flag f. Call_pick_rep a b c d flag f \<in> set made \<longrightarrow>
            (flag \<longleftrightarrow> \<not> allow_extra_5exon self)"
    using sub by (auto simp: run_calls_def split: if_splits)
next
  assume "failure = None"
  then have "made = run_calls self"
    using assms run_complete by blast
  then show "filter is_pick_rep made =
              [Call_pick_rep (isoform_filename self) (good_gff_fn self) (group_fn_of self)
                 (collapsed_isoform_filename self) (\<not> allow_extra_5exon self) (bad_gff_fn self)]"
    by (simp add: run_calls_def)
qed

theorem representative_policy_witness:
  "(let r0 = \<lparr>prefix = ''out'', allow_extra_5exon = False, isoform_filename = ''hq.fasta'',
              sam_filename = ''sorted.sam'', collapsed_isoform_filename = ''out.fasta'',
              min_aln_coverage = 99 / 100, min_aln_identity = 95 / 100, min_flnc_coverage = 2,
              max_fuzzy_junction = 5, skip_5_exon_alt = False\<rparr>;
        r1 = r0\<lparr>allow_extra_5exon := True\<rparr>
    in filter is_pick_rep (fst (run (\<lambda>f. True) (\<lambda>f. None) (\<lambda>c. None) r0)) =
         [Call_pick_rep ''hq.fasta'' (good_gff_fn r0) (group_fn_of r0) ''out.fasta'' True
            (bad_gff_fn r0)] \<and>
       filter is_pick_rep (fst (run (\<lambda>f. True) (\<lambda>f. None) (\<lambda>c. None) r1)) =
         [Call_pick_rep ''hq.fasta'' (good_gff_fn r1) (group_fn_of r1) ''out.fasta'' False
            (bad_gff_fn r1)])"
proof -
  let ?r0 = "\<lparr>prefix = ''out'', allow_extra_5exon = False, isoform_filename = ''hq.fasta'',
              sam_filename = ''sorted.sam'', collapsed_isoform_filename = ''out.fasta'',
              min_aln_coverage = 99 / 100, min_aln_identity = 95 / 100, min_flnc_coverage = 2,
              max_fuzzy_junction = 5, skip_5_exon_alt = False\<rparr>"
  let ?r1 = "?r0\<lparr>allow_extra_5exon := True\<rparr>"
  have run0: "run (\<lambda>f. True) (\<lambda>f. None) (\<lambda>c. None) ?r0 = (run_calls ?r0, None)"
    by (simp add: run_def validate_inputs_def run_calls_def shall_collapse_fuzzy_junctions_def)
  have run1: "run (\<lambda>f. True) (\<lambda>f. None) (\<lambda>c. None) ?r1 = (run_calls ?r1, None)"
    by (simp add: run_def validate_inputs_def run_calls_def shall_collapse_fuzzy_junctions_def)
  from representative_policy [OF run0] representative_policy [OF run1]
  show ?thesis
    unfolding Let_def run0 run1 fst_conv by simp
qed

section \<open>chain\_samples: the order of the fold\<close>

lemma fold_samples_length: "length (fst (fold_samples mfj acc ss)) = length ss"
  by (induction ss arbitrary: acc) (simp_all add: Let_def case_prod_beta)

lemma fold_samples_nth:
  "k < length ss \<Longrightarrow>
   fst (fold_samples mfj acc ss) ! k =
     \<lparr>as_tree =
        (if k = 0 then acc
         else \<lparr>tree_gff_filename = ''tmp_'' @ sample_name (ss ! (k - 1)) @ ''.gff'',
               tree_group_filename = ''tmp_'' @ sample_name (ss ! (k - 1)) @ ''.group.txt'',
               self_prefix = ''tmp_'' @ sample_name (ss ! (k - 1)),
               tree_max_fuzzy_junction = mfj\<rparr>),
      as_gff_filename = gff_fn (ss ! k),
      as_group_filename = group_fn (ss ! k),
      as_sample_prefix = sample_name (ss ! k),
      as_o_gff_fn = ''tmp_'' @ sample_name (ss ! k) @ ''.gff'',
      as_o_group_fn = ''tmp_'' @ sample_name (ss ! k) @ ''.group.txt'',
      as_o_mega_fn = ''tmp_'' @ sample_name (ss ! k) @ ''.mega_info.txt''\<rparr>"
proof (induction ss arbitrary: acc k)
  case Nil
  then show ?case by simp
next
  case (Cons s ss)
  show ?case
  proof (cases k)
    case 0
    then show ?thesis
      by (simp add: Let_def ChainFiles_init_def case_prod_beta)
  next
    case (Suc j)
    with Cons.prems have j: "j < length ss" by simp
    show ?thesis
      using Cons.IH [OF j] Suc
      by (cases j) (simp_all add: Let_def ChainFiles_init_def case_prod_beta)
  qed
qed

text \<open>
  C3.  For two or more samples the fold makes one call of \<^verbatim>\<open>add_sample\<close> for each
  sample after the first, in the order of the configuration: the call for sample \<open>k\<close>
  receives the files of sample \<open>k\<close>, writes the one mega info file
  \<^verbatim>\<open>tmp_<name k>.mega_info.txt\<close>, and is made on the tree of the first sample when
  \<open>k = 1\<close> and otherwise on the tree loaded from the files the call before it has
  written.
\<close>

theorem chain_fold_order:
  assumes "2 \<le> length samples"
  shows "\<exists>calls final.
           chain_fold samples mfj = Inr (calls, final) \<and>
           length calls = length samples - 1 \<and>
           (\<forall>k. 1 \<le> k \<and> k < length samples \<longrightarrow>
              calls ! (k - 1) =
                \<lparr>as_tree =
                   (if k = 1
                    then \<lparr>tree_gff_filename = gff_fn (samples ! 0),
                          tree_group_filename = group_fn (samples ! 0),
                          self_prefix = sample_name (samples ! 0),
                          tree_max_fuzzy_junction = mfj\<rparr>
                    else \<lparr>tree_gff_filename = as_o_gff_fn (calls ! (k - 2)),
                          tree_group_filename = as_o_group_fn (calls ! (k - 2)),
                          self_prefix = ''tmp_'' @ sample_name (samples ! (k - 1)),
                          tree_max_fuzzy_junction = mfj\<rparr>),
                 as_gff_filename = gff_fn (samples ! k),
                 as_group_filename = group_fn (samples ! k),
                 as_sample_prefix = sample_name (samples ! k),
                 as_o_gff_fn = ''tmp_'' @ sample_name (samples ! k) @ ''.gff'',
                 as_o_group_fn = ''tmp_'' @ sample_name (samples ! k) @ ''.group.txt'',
                 as_o_mega_fn = ''tmp_'' @ sample_name (samples ! k) @ ''.mega_info.txt''\<rparr>)"
proof -
  from assms obtain s rest where sm: "samples = s # rest" and r: "1 \<le> length rest"
    by (cases samples) auto
  let ?acc = "\<lparr>tree_gff_filename = gff_fn s, tree_group_filename = group_fn s,
               self_prefix = sample_name s, tree_max_fuzzy_junction = mfj\<rparr>"
  obtain calls final where f: "fold_samples mfj ?acc rest = (calls, final)"
    by (cases "fold_samples mfj ?acc rest") auto
  have c: "calls = fst (fold_samples mfj ?acc rest)"
    by (simp add: f)
  have len: "length calls = length rest"
    by (simp add: c fold_samples_length)
  have nth: "calls ! (k - 1) =
      \<lparr>as_tree =
         (if k = 1 then ?acc
          else \<lparr>tree_gff_filename = as_o_gff_fn (calls ! (k - 2)),
                tree_group_filename = as_o_group_fn (calls ! (k - 2)),
                self_prefix = ''tmp_'' @ sample_name (samples ! (k - 1)),
                tree_max_fuzzy_junction = mfj\<rparr>),
       as_gff_filename = gff_fn (samples ! k),
       as_group_filename = group_fn (samples ! k),
       as_sample_prefix = sample_name (samples ! k),
       as_o_gff_fn = ''tmp_'' @ sample_name (samples ! k) @ ''.gff'',
       as_o_group_fn = ''tmp_'' @ sample_name (samples ! k) @ ''.group.txt'',
       as_o_mega_fn = ''tmp_'' @ sample_name (samples ! k) @ ''.mega_info.txt''\<rparr>"
    if k: "1 \<le> k" "k < length samples" for k
  proof -
    from k sm obtain j where j: "k = Suc j" "j < length rest"
      by (cases k) auto
    show ?thesis
    proof (cases j)
      case 0
      with j show ?thesis
        using fold_samples_nth [of 0 rest mfj ?acc] by (simp add: c sm)
    next
      case (Suc i)
      with j have i: "i < length rest" by simp
      show ?thesis
        using fold_samples_nth [of j rest mfj ?acc] fold_samples_nth [of i rest mfj ?acc] j i Suc
        by (simp add: c sm)
    qed
  qed
  show ?thesis
    using f len nth sm by (auto simp: chain_fold_def)
qed

theorem chain_fold_order_witness:
  "(let A = \<lparr>sample_name = ''A'', gff_fn = ''A.gff'', group_fn = ''A.group.txt'',
             abundance_fn = ''A.abundance.txt''\<rparr>;
        B = \<lparr>sample_name = ''B'', gff_fn = ''B.gff'', group_fn = ''B.group.txt'',
             abundance_fn = ''B.abundance.txt''\<rparr>;
        C = \<lparr>sample_name = ''C'', gff_fn = ''C.gff'', group_fn = ''C.group.txt'',
             abundance_fn = ''C.abundance.txt''\<rparr>
    in 2 \<le> length [A, B, C] \<and>
       (\<exists>calls final.
          chain_fold [A, B, C] 5 = Inr (calls, final) \<and> length calls = 2 \<and>
          self_prefix (as_tree (calls ! 0)) = ''A'' \<and> as_sample_prefix (calls ! 0) = ''B'' \<and>
          as_o_mega_fn (calls ! 0) = ''tmp_B.mega_info.txt'' \<and>
          self_prefix (as_tree (calls ! 1)) = ''tmp_B'' \<and>
          tree_gff_filename (as_tree (calls ! 1)) = ''tmp_B.gff'' \<and>
          as_sample_prefix (calls ! 1) = ''C'' \<and>
          as_o_mega_fn (calls ! 1) = ''tmp_C.mega_info.txt''))"
proof -
  let ?A = "\<lparr>sample_name = ''A'', gff_fn = ''A.gff'', group_fn = ''A.group.txt'',
             abundance_fn = ''A.abundance.txt''\<rparr>"
  let ?B = "\<lparr>sample_name = ''B'', gff_fn = ''B.gff'', group_fn = ''B.group.txt'',
             abundance_fn = ''B.abundance.txt''\<rparr>"
  let ?C = "\<lparr>sample_name = ''C'', gff_fn = ''C.gff'', group_fn = ''C.group.txt'',
             abundance_fn = ''C.abundance.txt''\<rparr>"
  have h: "2 \<le> length [?A, ?B, ?C]" by simp
  from chain_fold_order [OF h, of 5] obtain calls final
    where cf: "chain_fold [?A, ?B, ?C] 5 = Inr (calls, final)"
      and len: "length calls = length [?A, ?B, ?C] - 1"
      and nth: "\<And>k. 1 \<le> k \<and> k < length [?A, ?B, ?C] \<Longrightarrow>
                self_prefix (as_tree (calls ! (k - 1))) =
                  (if k = 1 then sample_name ([?A, ?B, ?C] ! 0)
                   else ''tmp_'' @ sample_name ([?A, ?B, ?C] ! (k - 1))) \<and>
                tree_gff_filename (as_tree (calls ! (k - 1))) =
                  (if k = 1 then gff_fn ([?A, ?B, ?C] ! 0)
                   else as_o_gff_fn (calls ! (k - 2))) \<and>
                as_sample_prefix (calls ! (k - 1)) = sample_name ([?A, ?B, ?C] ! k) \<and>
                as_o_gff_fn (calls ! (k - 1)) = ''tmp_'' @ sample_name ([?A, ?B, ?C] ! k) @ ''.gff'' \<and>
                as_o_mega_fn (calls ! (k - 1)) =
                  ''tmp_'' @ sample_name ([?A, ?B, ?C] ! k) @ ''.mega_info.txt''"
    by (elim exE conjE) simp
  from nth [of 1] nth [of 2] cf len show ?thesis
    unfolding Let_def by (intro conjI h exI [of _ calls] exI [of _ final]) simp_all
qed

section \<open>CountRunner: failures of the constructor\<close>

text \<open>
  C8, as the code has it.  A missing group file, then a missing pickle, raises
  \<^verbatim>\<open>IOError\<close> with the name of the file.  When both exist, a load that raises
  \<^verbatim>\<open>ValueError\<close>, \<^verbatim>\<open>KeyError\<close> or \<^verbatim>\<open>IOError\<close>, and a loaded dictionary without the key
  \<^verbatim>\<open>HQ\<close>, raise \<^verbatim>\<open>ValueError\<close> with the name of the pickle; a load that raises any
  other exception raises that exception; no failing case gives a runner, and the runner
  is built exactly from the value under \<^verbatim>\<open>HQ\<close>.
\<close>

theorem CountRunner_init_failures:
  "(\<not> exists g \<longrightarrow>
      CountRunner_init exists load g p rs ab =
        Inl (IOError [''Input group file '' @ g @ '' does not exist''])) \<and>
   (exists g \<and> \<not> exists p \<longrightarrow>
      CountRunner_init exists load g p rs ab =
        Inl (IOError [''Input hq lq prefix dict pickle file '' @ p @ '' does not exist''])) \<and>
   (exists g \<and> exists p \<and> load p = Inl e \<and> caught e \<longrightarrow>
      CountRunner_init exists load g p rs ab =
        Inl (ValueError [''Could not load sample prefix dict (a['' @ [CHR 0x27] @ ''HQ'' @
                         [CHR 0x27] @ '']) from pickle '' @ p])) \<and>
   (exists g \<and> exists p \<and> load p = Inr a \<and> a ''HQ'' = None \<longrightarrow>
      CountRunner_init exists load g p rs ab =
        Inl (ValueError [''Could not load sample prefix dict (a['' @ [CHR 0x27] @ ''HQ'' @
                         [CHR 0x27] @ '']) from pickle '' @ p])) \<and>
   (exists g \<and> exists p \<and> load p = Inl e \<and> \<not> caught e \<longrightarrow>
      CountRunner_init exists load g p rs ab = Inl e) \<and>
   (exists g \<and> exists p \<and> load p = Inr a \<and> a ''HQ'' = Some d \<longrightarrow>
      CountRunner_init exists load g p rs ab =
        Inr \<lparr>read_stat_fn = rs, count_abundance_fn = ab, group_filename = g,
             pickle_filename = p, prefix_dict = d\<rparr>)"
  by (simp add: CountRunner_init_def CountRunner_validate_inputs_def)

theorem CountRunner_init_failures_witness:
  "(let ex = (\<lambda>f. f \<noteq> ''missing.txt'');
        ld = (\<lambda>f. if f = ''bad.pickle'' then Inl (ValueError [''insecure string pickle''])
                   else if f = ''empty.pickle'' then Inl EOFError
                   else if f = ''lq.pickle'' then Inr [''LQ'' \<mapsto> []]
                   else Inr [''HQ'' \<mapsto> [(''i0_HQ_sample|'', ''cluster_out'')]])
    in CountRunner_init ex ld ''missing.txt'' ''hq_lq.pickle'' ''rs.txt'' ''ab.txt'' =
         Inl (IOError [''Input group file missing.txt does not exist'']) \<and>
       CountRunner_init ex ld ''group.txt'' ''missing.txt'' ''rs.txt'' ''ab.txt'' =
         Inl (IOError [''Input hq lq prefix dict pickle file missing.txt does not exist'']) \<and>
       CountRunner_init ex ld ''group.txt'' ''bad.pickle'' ''rs.txt'' ''ab.txt'' =
         Inl (ValueError [''Could not load sample prefix dict (a['' @ [CHR 0x27] @ ''HQ'' @
                          [CHR 0x27] @ '']) from pickle bad.pickle'']) \<and>
       CountRunner_init ex ld ''group.txt'' ''lq.pickle'' ''rs.txt'' ''ab.txt'' =
         Inl (ValueError [''Could not load sample prefix dict (a['' @ [CHR 0x27] @ ''HQ'' @
                          [CHR 0x27] @ '']) from pickle lq.pickle'']) \<and>
       CountRunner_init ex ld ''group.txt'' ''empty.pickle'' ''rs.txt'' ''ab.txt'' =
         Inl EOFError \<and>
       CountRunner_init ex ld ''group.txt'' ''hq_lq.pickle'' ''rs.txt'' ''ab.txt'' =
         Inr \<lparr>read_stat_fn = ''rs.txt'', count_abundance_fn = ''ab.txt'',
              group_filename = ''group.txt'', pickle_filename = ''hq_lq.pickle'',
              prefix_dict = [(''i0_HQ_sample|'', ''cluster_out'')]\<rparr>)"
proof -
  let ?ex = "\<lambda>f. f \<noteq> ''missing.txt''"
  let ?ld = "\<lambda>f. if f = ''bad.pickle'' then Inl (ValueError [''insecure string pickle''])
                   else if f = ''empty.pickle'' then Inl EOFError
                   else if f = ''lq.pickle'' then Inr [''LQ'' \<mapsto> []]
                   else Inr [''HQ'' \<mapsto> [(''i0_HQ_sample|'', ''cluster_out'')]]"
  note t = CountRunner_init_failures [where exists = ?ex and load = ?ld and rs = "''rs.txt''"
      and ab = "''ab.txt''"]
  have 1: "CountRunner_init ?ex ?ld ''missing.txt'' ''hq_lq.pickle'' ''rs.txt'' ''ab.txt'' =
         Inl (IOError [''Input group file missing.txt does not exist''])"
    using t [where g = "''missing.txt''" and p = "''hq_lq.pickle''"] by simp
  have 2: "CountRunner_init ?ex ?ld ''group.txt'' ''missing.txt'' ''rs.txt'' ''ab.txt'' =
         Inl (IOError [''Input hq lq prefix dict pickle file missing.txt does not exist''])"
    using t [where g = "''group.txt''" and p = "''missing.txt''"] by simp
  have 3: "CountRunner_init ?ex ?ld ''group.txt'' ''bad.pickle'' ''rs.txt'' ''ab.txt'' =
         Inl (ValueError [''Could not load sample prefix dict (a['' @ [CHR 0x27] @ ''HQ'' @
                          [CHR 0x27] @ '']) from pickle bad.pickle''])"
    using t [where g = "''group.txt''" and p = "''bad.pickle''"
        and e = "ValueError [''insecure string pickle'']"] by simp
  have 4: "CountRunner_init ?ex ?ld ''group.txt'' ''lq.pickle'' ''rs.txt'' ''ab.txt'' =
         Inl (ValueError [''Could not load sample prefix dict (a['' @ [CHR 0x27] @ ''HQ'' @
                          [CHR 0x27] @ '']) from pickle lq.pickle''])"
    using t [where g = "''group.txt''" and p = "''lq.pickle''" and a = "[''LQ'' \<mapsto> []]"] by simp
  have 5: "CountRunner_init ?ex ?ld ''group.txt'' ''empty.pickle'' ''rs.txt'' ''ab.txt'' =
         Inl EOFError"
    using t [where g = "''group.txt''" and p = "''empty.pickle''" and e = EOFError] by simp
  have 6: "CountRunner_init ?ex ?ld ''group.txt'' ''hq_lq.pickle'' ''rs.txt'' ''ab.txt'' =
         Inr \<lparr>read_stat_fn = ''rs.txt'', count_abundance_fn = ''ab.txt'',
              group_filename = ''group.txt'', pickle_filename = ''hq_lq.pickle'',
              prefix_dict = [(''i0_HQ_sample|'', ''cluster_out'')]\<rparr>"
    using t [where g = "''group.txt''" and p = "''hq_lq.pickle''"
        and a = "[''HQ'' \<mapsto> [(''i0_HQ_sample|'', ''cluster_out'')]]"
        and d = "[(''i0_HQ_sample|'', ''cluster_out'')]"] by simp
  from 1 2 3 4 5 6 show ?thesis
    unfolding Let_def by (intro conjI)
qed

text \<open>
  C8 as it is stated fails on the code: a pickle file that exists and cannot be loaded
  because it is empty makes \<^verbatim>\<open>cPickle.load\<close> raise \<^verbatim>\<open>EOFError\<close>, which the
  \<^verbatim>\<open>except\<close> clause does not name; the constructor raises \<^verbatim>\<open>EOFError\<close>, not
  \<^verbatim>\<open>ValueError\<close>.
\<close>

theorem CountRunner_init_counterexample:
  "CountRunner_init (\<lambda>f. True) (\<lambda>f. Inl EOFError) ''group.txt'' ''empty.pickle'' ''rs.txt''
     ''ab.txt'' = Inl EOFError \<and>
   EOFError \<noteq>
     ValueError [''Could not load sample prefix dict (a['' @ [CHR 0x27] @ ''HQ'' @
                 [CHR 0x27] @ '']) from pickle empty.pickle'']"
  by (simp add: CountRunner_init_def CountRunner_validate_inputs_def)

section \<open>chain\_samples: reading the abundance files\<close>

lemma read_abundance_raises:
  "\<exists>r\<in>set rs. \<not> hasattr r f \<Longrightarrow>
   read_abundance s f rs info =
     Inl (ValueError [''%s abundance file does not have field %s'', abundance_fn s, f])"
  by (induction rs arbitrary: info) auto

lemma read_abundance_returns:
  "\<forall>r\<in>set rs. hasattr r f \<Longrightarrow> \<exists>info'. read_abundance s f rs info = Inr info'"
  by (induction rs arbitrary: info) auto

lemma read_samples_raises:
  "\<exists>s\<in>set ss. \<exists>r\<in>set (reader (abundance_fn s)). \<not> hasattr r f \<Longrightarrow>
   \<exists>s\<in>set ss. (\<exists>r\<in>set (reader (abundance_fn s)). \<not> hasattr r f) \<and>
     read_samples reader f ss info =
       Inl (ValueError [''%s abundance file does not have field %s'', abundance_fn s, f])"
proof (induction ss arbitrary: info)
  case Nil
  then show ?case by simp
next
  case (Cons s ss)
  show ?case
  proof (cases "\<exists>r\<in>set (reader (abundance_fn s)). \<not> hasattr r f")
    case True
    then show ?thesis
      by (auto simp: read_abundance_raises)
  next
    case False
    then obtain info' where i: "read_abundance s f (reader (abundance_fn s)) info = Inr info'"
      using read_abundance_returns [of "reader (abundance_fn s)" f s info] by auto
    from False Cons.prems
    have "\<exists>s\<in>set ss. \<exists>r\<in>set (reader (abundance_fn s)). \<not> hasattr r f"
      by auto
    from Cons.IH [OF this, of info'] show ?thesis
      by (auto simp: i)
  qed
qed

lemma read_samples_returns:
  "\<forall>s\<in>set ss. \<forall>r\<in>set (reader (abundance_fn s)). hasattr r f \<Longrightarrow>
   \<exists>info'. read_samples reader f ss info = Inr info'"
proof (induction ss arbitrary: info)
  case Nil
  then show ?case by simp
next
  case (Cons s ss)
  then obtain info' where i: "read_abundance s f (reader (abundance_fn s)) info = Inr info'"
    using read_abundance_returns [of "reader (abundance_fn s)" f s info] by auto
  with Cons show ?case by auto
qed

text \<open>
  C7, as the code has it.  The field is looked for on every record as it is read.  If
  some record of some sample's abundance file does not carry \<^verbatim>\<open>field_to_use\<close>,
  \<^verbatim>\<open>get_abundance_info\<close> raises the \<^verbatim>\<open>ValueError\<close> that carries the name of such a
  sample's abundance file and the field, and returns no map; in particular it does so
  when a file with at least one record lacks the field.  If every record carries the
  field, it returns a map.
\<close>

theorem get_abundance_info_missing_field:
  "((\<exists>s\<in>set samples. \<exists>r\<in>set (reader (abundance_fn s)). \<not> hasattr r f) \<longrightarrow>
      (\<exists>s\<in>set samples.
         (\<exists>r\<in>set (reader (abundance_fn s)). \<not> hasattr r f) \<and>
         get_abundance_info reader samples f =
           Inl (ValueError [''%s abundance file does not have field %s'', abundance_fn s, f]))) \<and>
   ((\<exists>s\<in>set samples. reader (abundance_fn s) \<noteq> [] \<and> lacks_field (reader (abundance_fn s)) f) \<longrightarrow>
      (\<exists>s\<in>set samples. get_abundance_info reader samples f =
           Inl (ValueError [''%s abundance file does not have field %s'', abundance_fn s, f]))) \<and>
   ((\<forall>s\<in>set samples. \<forall>r\<in>set (reader (abundance_fn s)). hasattr r f) \<longrightarrow>
      (\<exists>info. get_abundance_info reader samples f = Inr info))"
proof (intro conjI impI)
  assume "\<exists>s\<in>set samples. \<exists>r\<in>set (reader (abundance_fn s)). \<not> hasattr r f"
  then show "\<exists>s\<in>set samples.
         (\<exists>r\<in>set (reader (abundance_fn s)). \<not> hasattr r f) \<and>
         get_abundance_info reader samples f =
           Inl (ValueError [''%s abundance file does not have field %s'', abundance_fn s, f])"
    unfolding get_abundance_info_def by (rule read_samples_raises)
next
  assume "\<exists>s\<in>set samples. reader (abundance_fn s) \<noteq> [] \<and> lacks_field (reader (abundance_fn s)) f"
  then obtain s where s: "s \<in> set samples" "reader (abundance_fn s) \<noteq> []"
    "lacks_field (reader (abundance_fn s)) f"
    by blast
  then obtain r where "r \<in> set (reader (abundance_fn s))" "\<not> hasattr r f"
    by (cases "reader (abundance_fn s)") (auto simp: lacks_field_def)
  with s have "\<exists>s\<in>set samples. \<exists>r\<in>set (reader (abundance_fn s)). \<not> hasattr r f"
    by blast
  from read_samples_raises [OF this, of Map.empty]
  show "\<exists>s\<in>set samples. get_abundance_info reader samples f =
           Inl (ValueError [''%s abundance file does not have field %s'', abundance_fn s, f])"
    unfolding get_abundance_info_def by blast
next
  assume "\<forall>s\<in>set samples. \<forall>r\<in>set (reader (abundance_fn s)). hasattr r f"
  then show "\<exists>info. get_abundance_info reader samples f = Inr info"
    unfolding get_abundance_info_def by (rule read_samples_returns)
qed

theorem get_abundance_info_missing_field_witness:
  "(let S1 = \<lparr>sample_name = ''S1'', gff_fn = ''S1.gff'', group_fn = ''S1.group.txt'',
              abundance_fn = ''S1.abundance.txt''\<rparr>;
        S2 = \<lparr>sample_name = ''S2'', gff_fn = ''S2.gff'', group_fn = ''S2.group.txt'',
              abundance_fn = ''S2.abundance.txt''\<rparr>;
        reader = (\<lambda>fn. if fn = ''S1.abundance.txt''
                        then [\<lparr>ab_pbid = ''PB.1.1'', metrics = [(''count_fl'', 30), (''norm_fl'', 1 / 8)]\<rparr>]
                        else [\<lparr>ab_pbid = ''PB.1.1'', metrics = [(''count_fl'', 9)]\<rparr>])
    in get_abundance_info reader [S1, S2] ''norm_fl'' =
         Inl (ValueError [''%s abundance file does not have field %s'', ''S2.abundance.txt'',
                          ''norm_fl'']) \<and>
       (\<exists>info. get_abundance_info reader [S1, S2] ''count_fl'' = Inr info))"
proof -
  let ?S1 = "\<lparr>sample_name = ''S1'', gff_fn = ''S1.gff'', group_fn = ''S1.group.txt'',
              abundance_fn = ''S1.abundance.txt''\<rparr>"
  let ?S2 = "\<lparr>sample_name = ''S2'', gff_fn = ''S2.gff'', group_fn = ''S2.group.txt'',
              abundance_fn = ''S2.abundance.txt''\<rparr>"
  let ?reader = "\<lambda>fn. if fn = ''S1.abundance.txt''
                        then [\<lparr>ab_pbid = ''PB.1.1'', metrics = [(''count_fl'', 30), (''norm_fl'', 1 / 8)]\<rparr>]
                        else [\<lparr>ab_pbid = ''PB.1.1'', metrics = [(''count_fl'', 9 :: rat)]\<rparr>]"
  have lacks: "\<exists>s\<in>set [?S1, ?S2]. \<exists>r\<in>set (?reader (abundance_fn s)). \<not> hasattr r ''norm_fl''"
    by (simp add: hasattr_def)
  have only2: "(\<exists>r\<in>set (?reader (abundance_fn s)). \<not> hasattr r ''norm_fl'') \<Longrightarrow>
      s \<in> set [?S1, ?S2] \<Longrightarrow> abundance_fn s = ''S2.abundance.txt''" for s
    by (auto simp: hasattr_def)
  have has: "\<forall>s\<in>set [?S1, ?S2]. \<forall>r\<in>set (?reader (abundance_fn s)). hasattr r ''count_fl''"
    by (simp add: hasattr_def)
  from get_abundance_info_missing_field [of "[?S1, ?S2]" ?reader "''norm_fl''"] lacks
  obtain s where "s \<in> set [?S1, ?S2]"
    "\<exists>r\<in>set (?reader (abundance_fn s)). \<not> hasattr r ''norm_fl''"
    "get_abundance_info ?reader [?S1, ?S2] ''norm_fl'' =
       Inl (ValueError [''%s abundance file does not have field %s'', abundance_fn s, ''norm_fl''])"
    by blast
  with only2 [of s] have a: "get_abundance_info ?reader [?S1, ?S2] ''norm_fl'' =
       Inl (ValueError [''%s abundance file does not have field %s'', ''S2.abundance.txt'',
                        ''norm_fl''])"
    by simp
  from get_abundance_info_missing_field [of "[?S1, ?S2]" ?reader "''count_fl''"] has
  have b: "\<exists>info. get_abundance_info ?reader [?S1, ?S2] ''count_fl'' = Inr info"
    by blast
  from a b show ?thesis
    unfolding Let_def by (intro conjI)
qed

text \<open>
  C7 as it is stated fails on the code: an abundance file without data rows yields no
  record, so nothing is checked; such a file lacks the requested field and
  \<^verbatim>\<open>get_abundance_info\<close> returns the empty map instead of raising.
\<close>

theorem get_abundance_info_counterexample:
  "lacks_field ((\<lambda>fn. []) ''S1.abundance.txt'') ''norm_nfl'' \<and>
   get_abundance_info (\<lambda>fn. [])
     [\<lparr>sample_name = ''S1'', gff_fn = ''S1.gff'', group_fn = ''S1.group.txt'',
       abundance_fn = ''S1.abundance.txt''\<rparr>] ''norm_nfl'' = Inr Map.empty"
  by (simp add: lacks_field_def get_abundance_info_def)

section \<open>Branch.run: the order of the input\<close>

lemma transp_ordered: "transp ordered"
  by (rule transpI) (auto simp: ordered_def)

lemma grouper_step_previous:
  "grouper_step c i r g = Inr g' \<Longrightarrow> previous g' = Some r"
  by (auto simp: grouper_step_def split: if_splits)

lemma grouper_step_fails:
  "(\<exists>e. grouper_step c i r g = Inl e) \<longleftrightarrow> (\<exists>p. previous g = Some p \<and> \<not> ordered p r)"
  by (auto simp: grouper_step_def split: option.splits)

lemma grouper_step_error:
  "grouper_step c i r g = Inl e \<Longrightarrow> e = OrderingViolation"
  by (auto simp: grouper_step_def split: if_splits)

lemma grouper_feed_failure:
  "snd (grouper_feed c i rs g) =
     (if successively ordered (case previous g of None \<Rightarrow> rs | Some p \<Rightarrow> p # rs)
      then None else Some OrderingViolation)"
proof (induction rs arbitrary: g)
  case Nil
  then show ?case by (simp split: option.splits)
next
  case (Cons r rs)
  show ?case
  proof (cases "grouper_step c i r g")
    case (Inl e)
    then obtain p where "previous g = Some p" "\<not> ordered p r"
      using grouper_step_fails [of c i r g] by auto
    with Inl grouper_step_error [OF Inl] show ?thesis by simp
  next
    case (Inr g')
    then have ok: "\<not> (\<exists>p. previous g = Some p \<and> \<not> ordered p r)"
      using grouper_step_fails [of c i r g] by auto
    from Inr have "previous g' = Some r" by (rule grouper_step_previous)
    with Cons.IH [of g'] Inr ok show ?thesis
      by (cases "previous g") auto
  qed
qed

text \<open>
  C5, against the grouping stage as the specification describes it.  On every alignment
  stream that is not sorted by (reference id, reference start) \<^verbatim>\<open>Branch.run\<close> ends with
  the ordering violation, which it does not catch; on a sorted stream it ends without
  exception.
\<close>

theorem unsorted_stream_raises:
  "(\<not> sorted_wrt ordered sam \<longrightarrow>
      snd (snd (Branch_run min_cov min_idn sam)) = Some OrderingViolation) \<and>
   (sorted_wrt ordered sam \<longrightarrow> snd (snd (Branch_run min_cov min_idn sam)) = None)"
proof -
  have "snd (snd (Branch_run min_cov min_idn sam)) =
      snd (grouper_feed min_cov min_idn sam
            \<lparr>previous = None, current = [], yielded = [], ignored = []\<rparr>)"
    by (simp add: Branch_run_def iter_gmap_sam_def case_prod_beta Let_def)
  also have "\<dots> = (if successively ordered sam then None else Some OrderingViolation)"
    by (simp add: grouper_feed_failure)
  finally show ?thesis
    using successively_conv_sorted_wrt [OF transp_ordered, of sam] by simp
qed

theorem unsorted_stream_raises_witness:
  "(let a = \<lparr>qID = ''i0'', sID = (1::nat), sStart = 500, sEnd = 900, strand_of = Plus,
             qCoverage = 1, identity = 1\<rparr>;
        b = \<lparr>qID = ''i1'', sID = (1::nat), sStart = 100, sEnd = 400, strand_of = Plus,
             qCoverage = 1, identity = 1\<rparr>
    in \<not> sorted_wrt ordered [a, b] \<and>
       snd (snd (Branch_run (99 / 100) (95 / 100) [a, b])) = Some OrderingViolation \<and>
       sorted_wrt ordered [b, a] \<and>
       Branch_run (99 / 100) (95 / 100) [b, a] = ([(1, [b]), (2, [a])], [], None))"
proof -
  let ?a = "\<lparr>qID = ''i0'', sID = (1::nat), sStart = 500, sEnd = 900, strand_of = Plus,
             qCoverage = 1, identity = 1\<rparr>"
  let ?b = "\<lparr>qID = ''i1'', sID = (1::nat), sStart = 100, sEnd = 400, strand_of = Plus,
             qCoverage = 1, identity = 1\<rparr>"
  have u: "\<not> sorted_wrt ordered [?a, ?b]" and s: "sorted_wrt ordered [?b, ?a]"
    by (simp_all add: ordered_def)
  have r: "Branch_run (99 / 100) (95 / 100) [?b, ?a] = ([(1, [?b]), (2, [?a])], [], None)"
    by (simp add: Branch_run_def iter_gmap_sam_def grouper_step_def ordered_def overlaps_def
        sep_by_strand_def Let_def)
  from unsorted_stream_raises [of "[?a, ?b]" "99 / 100" "95 / 100"] u
  have 1: "snd (snd (Branch_run (99 / 100) (95 / 100) [?a, ?b])) = Some OrderingViolation"
    by blast
  from unsorted_stream_raises [of "[?b, ?a]" "99 / 100" "95 / 100"] s
  have 2: "snd (snd (Branch_run (99 / 100) (95 / 100) [?b, ?a])) = None"
    by blast
  from u s 1 2 r show ?thesis
    unfolding Let_def by (intro conjI)
qed

section \<open>chain\_samples: resolving a row backward\<close>

lemma record_abundance_frame:
  assumes "record_abundance info c st = Inr st'"
  shows "chain_to_pbid st' = chain_to_pbid st"
    and "x \<noteq> c \<Longrightarrow> chain_to_abundance st' x = chain_to_abundance st x"
  using assms by (auto simp: record_abundance_def split: if_splits option.splits)

lemma walk_break:
  assumes "walk d info cs r st = Inr (saw, r', st')"
    and "k < length cs"
    and "row_at d cs r k = Some rk"
    and "rk (o_prefix (ChainFiles_init (cs ! k))) = Some ''NA''"
  shows "saw \<and> (\<forall>x. x \<notin> set (take k cs) \<longrightarrow>
           chain_to_pbid st' x = chain_to_pbid st x \<and>
           chain_to_abundance st' x = chain_to_abundance st x)"
  using assms
proof (induction cs arbitrary: r st k)
  case Nil
  then show ?case by simp
next
  case (Cons c cs)
  let ?pfx = "o_prefix (ChainFiles_init c)"
  show ?case
  proof (cases k)
    case 0
    with Cons.prems have "r ?pfx = Some ''NA''" by simp
    with Cons.prems(1) 0 show ?thesis
      by (simp add: getitem_def)
  next
    case (Suc j)
    from Cons.prems(3) Suc obtain p r2 where p: "r ?pfx = Some p" "p \<noteq> ''NA''"
      and r2: "d (?pfx, p) = Some r2" and ra: "row_at d cs r2 j = Some rk"
      by (auto split: option.splits if_splits)
    from Cons.prems(1) p r2 obtain i st1 where i: "getitem r2 c = Inr i"
      and st1: "record_abundance info c (st\<lparr>chain_to_pbid := (chain_to_pbid st)(c \<mapsto> i)\<rparr>) = Inr st1"
      and w: "walk d info cs r2 st1 = Inr (saw, r', st')"
      by (auto simp: getitem_def Let_def split: sum.splits option.splits)
    from Cons.prems(2,4) Suc have j: "j < length cs"
      and na: "rk (o_prefix (ChainFiles_init (cs ! j))) = Some ''NA''"
      by simp_all
    from Cons.IH [OF w j ra na]
    have saw: saw and fr: "\<And>x. x \<notin> set (take j cs) \<Longrightarrow>
        chain_to_pbid st' x = chain_to_pbid st1 x \<and>
        chain_to_abundance st' x = chain_to_abundance st1 x"
      by auto
    have "chain_to_pbid st' x = chain_to_pbid st x \<and>
        chain_to_abundance st' x = chain_to_abundance st x"
      if "x \<notin> set (take k (c # cs))" for x
    proof -
      from that Suc have xc: "x \<noteq> c" and xj: "x \<notin> set (take j cs)" by auto
      from record_abundance_frame [OF st1] xc
      have "chain_to_pbid st1 x = chain_to_pbid st x"
        "chain_to_abundance st1 x = chain_to_abundance st x"
        by auto
      with fr [OF xj] show ?thesis by simp
    qed
    with saw show ?thesis by blast
  qed
qed

lemma middle_samples: "butlast (tl (rev (a # mid @ [z]))) = rev mid"
  by (simp add: butlast_append)

lemma names_split:
  assumes "2 \<le> length (names :: 'a list)"
  obtains a mid z where "names = a # mid @ [z]"
proof (cases names)
  case Nil
  with assms show ?thesis by simp
next
  case (Cons a rest)
  with assms have "rest \<noteq> []" by auto
  then obtain mid z where "rest = mid @ [z]"
    by (cases rest rule: rev_cases) auto
  with Cons that show ?thesis by blast
qed

lemma resolve_row_Inr:
  assumes "resolve_row d info names r0 = Inr st"
  shows "\<exists>i st1 saw r' st2.
      names \<noteq> [] \<and>
      getitem r0 (last names) = Inr i \<and>
      record_abundance info (last names)
        \<lparr>chain_to_pbid = [last names \<mapsto> i], chain_to_abundance = Map.empty\<rparr> = Inr st1 \<and>
      walk d info (butlast (tl (rev names))) r0 st1 = Inr (saw, r', st2) \<and>
      (saw \<longrightarrow> st = st2) \<and>
      (\<not> saw \<longrightarrow> (\<exists>i0. getitem r' (hd names) = Inr i0 \<and>
         record_abundance info (hd names)
           (st2\<lparr>chain_to_pbid := (chain_to_pbid st2)(hd names \<mapsto> i0)\<rparr>) = Inr st))"
proof -
  from assms have ne: "names \<noteq> []"
    by (auto simp: resolve_row_def split: if_splits)
  from assms ne obtain i where gi: "getitem r0 (last names) = Inr i"
    by (cases "getitem r0 (last names)") (auto simp: resolve_row_def)
  let ?st0 = "\<lparr>chain_to_pbid = [last names \<mapsto> i], chain_to_abundance = Map.empty\<rparr>"
  from assms ne gi obtain st1 where s1: "record_abundance info (last names) ?st0 = Inr st1"
    by (cases "record_abundance info (last names) ?st0") (auto simp: resolve_row_def)
  from assms ne gi s1 obtain res where w0: "walk d info (butlast (tl (rev names))) r0 st1 = Inr res"
    by (cases "walk d info (butlast (tl (rev names))) r0 st1") (auto simp: resolve_row_def)
  obtain saw r' st2 where res: "res = (saw, r', st2)"
    by (cases res) auto
  from assms ne gi s1 w0 res
  have fin: "(if \<not> saw
        then (case getitem r' (hd names) of
                Inl e \<Rightarrow> Inl e
              | Inr i0 \<Rightarrow> record_abundance info (hd names)
                    (st2\<lparr>chain_to_pbid := (chain_to_pbid st2)(hd names \<mapsto> i0)\<rparr>))
        else Inr st2) = Inr st"
    by (simp add: resolve_row_def)
  have a: "saw \<longrightarrow> st = st2"
    using fin by (auto split: if_splits)
  have b: "\<not> saw \<longrightarrow> (\<exists>i0. getitem r' (hd names) = Inr i0 \<and>
           record_abundance info (hd names)
             (st2\<lparr>chain_to_pbid := (chain_to_pbid st2)(hd names \<mapsto> i0)\<rparr>) = Inr st)"
    using fin by (cases "getitem r' (hd names)") (auto split: if_splits)
  from ne gi s1 w0 res a b show ?thesis
    by blast
qed

text \<open>
  C1.  Take a row of the last mega info file whose resolution succeeds.  The backward
  loop runs over the samples before the last and after the first, from the latest to the
  earliest.  If at its \<open>k\<close>-th iteration the row it holds has \<^verbatim>\<open>NA\<close> in the column of
  the accumulated prefix it looks up, then the sample of that iteration and every sample
  before it in the chain (the first \<open>length names - 1 - k\<close> samples) gets \<^verbatim>\<open>NA\<close> as its id
  and \<^verbatim>\<open>NA\<close> as its abundance cell, provided its name is not also the name of a later
  sample; when the sample names are distinct this is every such sample.
\<close>

theorem chain_resolution_NA:
  assumes "resolve_row mega_info_d info names r0 = Inr st"
    and "k < length (butlast (tl (rev names)))"
    and "row_at mega_info_d (butlast (tl (rev names))) r0 k = Some r"
    and "r (o_prefix (ChainFiles_init (butlast (tl (rev names)) ! k))) = Some ''NA''"
  shows "(\<forall>c\<in>set (take (length names - 1 - k) names).
            c \<notin> set (drop (length names - 1 - k) names) \<longrightarrow>
            ids_cell st c = ''NA'' \<and> count_cell st c = ''NA'') \<and>
         (distinct names \<longrightarrow>
            (\<forall>c\<in>set (take (length names - 1 - k) names).
               ids_cell st c = ''NA'' \<and> count_cell st c = ''NA''))"
proof -
  from assms(2) have "2 \<le> length names" by simp
  then obtain a mid z where names: "names = a # mid @ [z]"
    by (rule names_split)
  have cs: "butlast (tl (rev names)) = rev mid"
    unfolding names by (rule middle_samples)
  from assms(2) cs have k: "k < length mid" by simp
  from resolve_row_Inr [OF assms(1)] obtain i st1 saw r' st2
    where st1: "record_abundance info (last names)
                  \<lparr>chain_to_pbid = [last names \<mapsto> i], chain_to_abundance = Map.empty\<rparr> = Inr st1"
      and w: "walk mega_info_d info (butlast (tl (rev names))) r0 st1 = Inr (saw, r', st2)"
      and fin: "saw \<longrightarrow> st = st2"
    by blast
  have lz: "last names = z" by (simp add: names)
  from w have w': "walk mega_info_d info (rev mid) r0 st1 = Inr (saw, r', st2)"
    by (simp only: cs)
  from assms(3,4) have ra: "row_at mega_info_d (rev mid) r0 k = Some r"
    and na: "r (o_prefix (ChainFiles_init (rev mid ! k))) = Some ''NA''"
    by (simp_all only: cs)
  from k have k': "k < length (rev mid)" by simp
  from walk_break [OF w' k' ra na]
  have saw: saw and fr: "\<And>x. x \<notin> set (take k (rev mid)) \<Longrightarrow>
      chain_to_pbid st2 x = chain_to_pbid st1 x \<and>
      chain_to_abundance st2 x = chain_to_abundance st1 x"
    by auto
  from saw fin have st: "st = st2" by simp
  let ?n = "length names - 1 - k"
  have dr: "drop ?n names = drop (length mid - k) mid @ [z]"
    using k by (simp add: names Suc_diff_le)
  have tr: "take k (rev mid) = rev (drop (length mid - k) mid)"
    by (simp add: take_rev)
  have later: "ids_cell st c = ''NA'' \<and> count_cell st c = ''NA''"
    if c: "c \<notin> set (drop ?n names)" for c
  proof -
    from c have "c \<notin> set (drop (length mid - k) mid @ [z])"
      unfolding dr .
    then have cz: "c \<noteq> z" and cn: "c \<notin> set (take k (rev mid))"
      by (simp_all add: tr)
    from record_abundance_frame [OF st1] cz
    have "chain_to_pbid st1 c = None" "chain_to_abundance st1 c = None"
      by (simp_all add: lz)
    with fr [OF cn] st show ?thesis
      by (simp add: ids_cell_def pbid_of_def count_cell_def)
  qed
  show ?thesis
  proof (intro conjI impI ballI)
    fix c assume "c \<notin> set (drop ?n names)"
    then show "ids_cell st c = ''NA''" "count_cell st c = ''NA''"
      using later by simp_all
  next
    fix c assume d: "distinct names" and c: "c \<in> set (take ?n names)"
    from d have "set (take ?n names) \<inter> set (drop ?n names) = {}"
      by (rule set_take_disj_set_drop_if_distinct) simp
    with c have "c \<notin> set (drop ?n names)" by blast
    then show "ids_cell st c = ''NA''" "count_cell st c = ''NA''"
      using later by simp_all
  qed
qed

theorem chain_resolution_NA_witness:
  "(let names = [''A'', ''B'', ''C'', ''D''];
        r2 = [''pbid'' \<mapsto> ''PB.5.1'', ''tmp_B'' \<mapsto> ''NA'', ''C'' \<mapsto> ''PB.4.1''];
        r0 = [''pbid'' \<mapsto> ''PB.9.1'', ''tmp_C'' \<mapsto> ''PB.5.1'', ''D'' \<mapsto> ''PB.2.1''];
        mega_info_d = [(''tmp_C'', ''PB.5.1'') \<mapsto> r2];
        info = [(''C'', ''PB.4.1'') \<mapsto> 30, (''D'', ''PB.2.1'') \<mapsto> 1 / 8];
        st = \<lparr>chain_to_pbid = [''D'' \<mapsto> ''PB.2.1'', ''C'' \<mapsto> ''PB.4.1''],
              chain_to_abundance = [''D'' \<mapsto> 1 / 8, ''C'' \<mapsto> 30]\<rparr>
    in distinct names \<and>
       resolve_row mega_info_d info names r0 = Inr st \<and>
       row_at mega_info_d (butlast (tl (rev names))) r0 1 = Some r2 \<and>
       butlast (tl (rev names)) ! 1 = ''B'' \<and>
       r2 (o_prefix (ChainFiles_init ''B'')) = Some ''NA'' \<and>
       take (length names - 1 - 1) names = [''A'', ''B''] \<and>
       ids_cell st ''A'' = ''NA'' \<and> count_cell st ''A'' = ''NA'' \<and>
       ids_cell st ''B'' = ''NA'' \<and> count_cell st ''B'' = ''NA'' \<and>
       ids_cell st ''C'' = ''PB.4.1'' \<and> ids_cell st ''D'' = ''PB.2.1'')"
proof -
  let ?names = "[''A'', ''B'', ''C'', ''D'']"
  let ?r2 = "[''pbid'' \<mapsto> ''PB.5.1'', ''tmp_B'' \<mapsto> ''NA'', ''C'' \<mapsto> ''PB.4.1'']"
  let ?r0 = "[''pbid'' \<mapsto> ''PB.9.1'', ''tmp_C'' \<mapsto> ''PB.5.1'', ''D'' \<mapsto> ''PB.2.1'']"
  let ?d = "[(''tmp_C'', ''PB.5.1'') \<mapsto> ?r2]"
  let ?info = "[(''C'', ''PB.4.1'') \<mapsto> 30 :: rat, (''D'', ''PB.2.1'') \<mapsto> 1 / 8]"
  let ?st = "\<lparr>chain_to_pbid = [''D'' \<mapsto> ''PB.2.1'', ''C'' \<mapsto> ''PB.4.1''],
              chain_to_abundance = [''D'' \<mapsto> 1 / 8 :: rat, ''C'' \<mapsto> 30]\<rparr>"
  have dist: "distinct ?names" by simp
  have cs: "butlast (tl (rev ?names)) = [''C'', ''B'']" by simp
  have rr: "resolve_row ?d ?info ?names ?r0 = Inr ?st"
    by (simp add: resolve_row_def getitem_def record_abundance_def pbid_of_def
        ChainFiles_init_def Let_def)
  have k: "1 < length (butlast (tl (rev ?names)))" by simp
  have ra: "row_at ?d (butlast (tl (rev ?names))) ?r0 1 = Some ?r2"
    by (simp add: ChainFiles_init_def Let_def)
  have na: "?r2 (o_prefix (ChainFiles_init (butlast (tl (rev ?names)) ! 1))) = Some ''NA''"
    by (simp add: ChainFiles_init_def Let_def)
  have tk: "take (length ?names - 1 - 1) ?names = [''A'', ''B'']" by simp
  from chain_resolution_NA [OF rr k ra na] dist
  have "\<forall>c\<in>set (take (length ?names - 1 - 1) ?names).
      ids_cell ?st c = ''NA'' \<and> count_cell ?st c = ''NA''"
    by blast
  then have "\<forall>c\<in>set [''A'', ''B'']. ids_cell ?st c = ''NA'' \<and> count_cell ?st c = ''NA''"
    unfolding tk .
  then have cells: "ids_cell ?st ''A'' = ''NA''" "count_cell ?st ''A'' = ''NA''"
    "ids_cell ?st ''B'' = ''NA''" "count_cell ?st ''B'' = ''NA''"
    by simp_all
  have others: "ids_cell ?st ''C'' = ''PB.4.1''" "ids_cell ?st ''D'' = ''PB.2.1''"
    by (simp_all add: ids_cell_def pbid_of_def)
  have nab: "?r2 (o_prefix (ChainFiles_init ''B'')) = Some ''NA''"
    by (simp add: ChainFiles_init_def Let_def)
  have b: "butlast (tl (rev ?names)) ! 1 = ''B''" by simp
  from dist rr ra b nab tk cells others show ?thesis
    unfolding Let_def by (intro conjI)
qed

section \<open>chain\_samples: the cells of the abundance table\<close>

lemma record_abundance_looked_up:
  assumes "looked_up info st"
    and "record_abundance info c (st\<lparr>chain_to_pbid := (chain_to_pbid st)(c \<mapsto> i)\<rparr>) = Inr st'"
  shows "looked_up info st'"
  using assms
  by (auto simp: looked_up_def record_abundance_def pbid_of_def split: if_splits option.splits)

lemma walk_looked_up:
  assumes "looked_up info st" and "walk d info cs r st = Inr (saw, r', st')"
  shows "looked_up info st'"
  using assms
proof (induction cs arbitrary: r st)
  case Nil
  then show ?case by simp
next
  case (Cons c cs)
  show ?case
  proof (cases "getitem r (o_prefix (ChainFiles_init c)) = Inr ''NA''")
    case True
    with Cons.prems show ?thesis by simp
  next
    case False
    with Cons.prems(2) obtain r2 i st1
      where st1: "record_abundance info c (st\<lparr>chain_to_pbid := (chain_to_pbid st)(c \<mapsto> i)\<rparr>) = Inr st1"
        and w: "walk d info cs r2 st1 = Inr (saw, r', st')"
      by (auto simp: Let_def split: sum.splits option.splits if_splits)
    from record_abundance_looked_up [OF Cons.prems(1) st1] w show ?thesis
      by (rule Cons.IH)
  qed
qed

lemma resolve_row_looked_up:
  assumes "resolve_row d info names r0 = Inr st"
  shows "looked_up info st"
proof -
  let ?z = "last names" and ?a = "hd names"
  have e: "looked_up info \<lparr>chain_to_pbid = Map.empty, chain_to_abundance = Map.empty\<rparr>"
    by (simp add: looked_up_def)
  from resolve_row_Inr [OF assms] obtain i st1 saw r' st2
    where st1: "record_abundance info ?z \<lparr>chain_to_pbid = [?z \<mapsto> i], chain_to_abundance = Map.empty\<rparr>
                  = Inr st1"
      and w: "walk d info (butlast (tl (rev names))) r0 st1 = Inr (saw, r', st2)"
      and fa: "saw \<longrightarrow> st = st2"
      and fb: "\<not> saw \<longrightarrow> (\<exists>i0. getitem r' ?a = Inr i0 \<and>
             record_abundance info ?a
               (st2\<lparr>chain_to_pbid := (chain_to_pbid st2)(?a \<mapsto> i0)\<rparr>) = Inr st)"
    by blast
  have "looked_up info st1"
    using record_abundance_looked_up [OF e, of ?z i st1] st1 by simp
  then have l2: "looked_up info st2"
    using w by (rule walk_looked_up)
  show ?thesis
  proof (cases saw)
    case True
    with fa l2 show ?thesis by simp
  next
    case False
    with fb l2 show ?thesis
      using record_abundance_looked_up [of info st2 ?a _ st] by blast
  qed
qed

lemma record_abundance_result:
  assumes "record_abundance info c st = Inr st'"
  shows "chain_to_pbid st' = chain_to_pbid st"
    and "pbid_of st c = ''NA'' \<Longrightarrow> chain_to_abundance st' = chain_to_abundance st"
    and "pbid_of st c \<noteq> ''NA'' \<Longrightarrow>
           info (c, pbid_of st c) \<noteq> None \<and>
           chain_to_abundance st' = (chain_to_abundance st)(c := info (c, pbid_of st c))"
  using assms by (auto simp: record_abundance_def split: if_splits option.splits)

lemma pbid_of_update:
  "pbid_of (st\<lparr>chain_to_pbid := (chain_to_pbid st)(c \<mapsto> i)\<rparr>) x = (if x = c then i else pbid_of st x)"
  by (simp add: pbid_of_def)

lemma record_abundance_consistent:
  assumes "consistent info st" and "chain_to_abundance st c = None \<or> i \<noteq> ''NA''"
    and "record_abundance info c (st\<lparr>chain_to_pbid := (chain_to_pbid st)(c \<mapsto> i)\<rparr>) = Inr st'"
  shows "consistent info st'"
proof -
  let ?su = "st\<lparr>chain_to_pbid := (chain_to_pbid st)(c \<mapsto> i)\<rparr>"
  have pu: "pbid_of ?su x = (if x = c then i else pbid_of st x)" for x
    by (rule pbid_of_update)
  from record_abundance_result(1) [OF assms(3)]
  have p': "pbid_of st' x = (if x = c then i else pbid_of st x)" for x
    using pu [of x] by (simp add: pbid_of_def)
  have old: "(pbid_of st x = ''NA'' \<longrightarrow> chain_to_abundance st x = None) \<and>
      (pbid_of st x \<noteq> ''NA'' \<longrightarrow>
         (\<exists>v. chain_to_abundance st x = Some v \<and> info (x, pbid_of st x) = Some v))" for x
    using assms(1) unfolding consistent_def by blast
  show ?thesis
  proof (cases "i = ''NA''")
    case True
    with assms(2) have cn: "chain_to_abundance st c = None" by simp
    from True have "pbid_of ?su c = ''NA''" by (simp add: pbid_of_update)
    from record_abundance_result(2) [OF assms(3) this]
    have a': "chain_to_abundance st' = chain_to_abundance st" by simp
    show ?thesis
      unfolding consistent_def
    proof (intro allI)
      fix x
      show "(pbid_of st' x = ''NA'' \<longrightarrow> chain_to_abundance st' x = None) \<and>
        (pbid_of st' x \<noteq> ''NA'' \<longrightarrow>
           (\<exists>v. chain_to_abundance st' x = Some v \<and> info (x, pbid_of st' x) = Some v))"
        using old [of x] cn True by (cases "x = c") (auto simp: p' a')
    qed
  next
    case False
    then have "pbid_of ?su c \<noteq> ''NA''" by (simp add: pbid_of_update)
    from record_abundance_result(3) [OF assms(3) this]
    have nn: "info (c, i) \<noteq> None"
      and a': "chain_to_abundance st' = (chain_to_abundance st)(c := info (c, i))"
      by (simp_all add: pbid_of_update)
    show ?thesis
      unfolding consistent_def
    proof (intro allI)
      fix x
      show "(pbid_of st' x = ''NA'' \<longrightarrow> chain_to_abundance st' x = None) \<and>
        (pbid_of st' x \<noteq> ''NA'' \<longrightarrow>
           (\<exists>v. chain_to_abundance st' x = Some v \<and> info (x, pbid_of st' x) = Some v))"
        using old [of x] nn False by (cases "x = c") (auto simp: p' a')
    qed
  qed
qed

lemma record_abundance_dom:
  assumes "record_abundance info c st = Inr st'"
  shows "dom (chain_to_abundance st') \<subseteq> insert c (dom (chain_to_abundance st))"
  using assms by (auto simp: record_abundance_def split: if_splits option.splits)

lemma walk_consistent:
  assumes "consistent info st" and "distinct cs"
    and "set cs \<inter> dom (chain_to_abundance st) = {}"
    and "walk d info cs r st = Inr (saw, r', st')"
  shows "consistent info st' \<and>
         dom (chain_to_abundance st') \<subseteq> dom (chain_to_abundance st) \<union> set cs"
  using assms
proof (induction cs arbitrary: r st)
  case Nil
  then show ?case by simp
next
  case (Cons c cs)
  show ?case
  proof (cases "getitem r (o_prefix (ChainFiles_init c)) = Inr ''NA''")
    case True
    with Cons.prems show ?thesis by auto
  next
    case False
    with Cons.prems(4) obtain r2 i st1
      where st1: "record_abundance info c (st\<lparr>chain_to_pbid := (chain_to_pbid st)(c \<mapsto> i)\<rparr>) = Inr st1"
        and w: "walk d info cs r2 st1 = Inr (saw, r', st')"
      by (auto simp: Let_def split: sum.splits option.splits if_splits)
    from Cons.prems(3) have cn: "chain_to_abundance st c = None" by auto
    then have c1: "consistent info st1"
      using record_abundance_consistent [OF Cons.prems(1) _ st1] by simp
    from record_abundance_dom [OF st1]
    have d1: "dom (chain_to_abundance st1) \<subseteq> insert c (dom (chain_to_abundance st))"
      by simp
    from Cons.prems(2,3) d1 have dj: "set cs \<inter> dom (chain_to_abundance st1) = {}"
      by auto
    from Cons.prems(2) have "distinct cs" by simp
    from Cons.IH [OF c1 this dj w]
    have c': "consistent info st'"
      and d': "dom (chain_to_abundance st') \<subseteq> dom (chain_to_abundance st1) \<union> set cs"
      by simp_all
    from d' d1 have "dom (chain_to_abundance st') \<subseteq> dom (chain_to_abundance st) \<union> set (c # cs)"
      by (simp add: subset_iff) blast
    with c' show ?thesis by simp
  qed
qed

lemma resolve_row_consistent:
  assumes "resolve_row d info names r0 = Inr st" and "distinct names"
  shows "consistent info st"
proof -
  let ?z = "last names" and ?a = "hd names" and ?cs = "butlast (tl (rev names))"
  let ?st0 = "\<lambda>i. \<lparr>chain_to_pbid = [?z \<mapsto> i], chain_to_abundance = Map.empty\<rparr>"
  from resolve_row_Inr [OF assms(1)] obtain i st1 saw r' st2
    where ne: "names \<noteq> []" and gi: "getitem r0 ?z = Inr i"
      and st1: "record_abundance info ?z (?st0 i) = Inr st1"
      and w: "walk d info ?cs r0 st1 = Inr (saw, r', st2)"
      and fa: "saw \<longrightarrow> st = st2"
      and fb: "\<not> saw \<longrightarrow> (\<exists>i0. getitem r' ?a = Inr i0 \<and>
             record_abundance info ?a
               (st2\<lparr>chain_to_pbid := (chain_to_pbid st2)(?a \<mapsto> i0)\<rparr>) = Inr st)"
    by blast
  let ?e = "\<lparr>chain_to_pbid = Map.empty, chain_to_abundance = Map.empty\<rparr> :: resolution"
  have e: "consistent info ?e"
    by (simp add: consistent_def pbid_of_def)
  have "?e\<lparr>chain_to_pbid := (chain_to_pbid ?e)(?z \<mapsto> i)\<rparr> = ?st0 i"
    by simp
  with st1 have "record_abundance info ?z (?e\<lparr>chain_to_pbid := (chain_to_pbid ?e)(?z \<mapsto> i)\<rparr>) = Inr st1"
    by simp
  from record_abundance_consistent [OF e _ this]
  have c1: "consistent info st1" by simp
  have d1: "dom (chain_to_abundance st1) \<subseteq> {?z}"
    using record_abundance_dom [OF st1] by simp
  consider (one) a where "names = [a]" | (more) a mid z where "names = a # mid @ [z]"
  proof (cases "tl names" rule: rev_cases)
    case Nil
    with ne have "names = [hd names]" by (cases names) auto
    then show ?thesis by (rule one)
  next
    case (snoc mid z)
    with ne have "names = hd names # mid @ [z]" by (cases names) auto
    then show ?thesis by (rule more)
  qed
  then show ?thesis
  proof cases
    case one
    then have az: "?a = a" "?z = a" and cs: "?cs = []"
      by simp_all
    from w cs have r': "r' = r0" and s2: "st2 = st1" and ns: "\<not> saw"
      by simp_all
    from fb ns obtain i0 where g0: "getitem r' ?a = Inr i0"
      and fin: "record_abundance info ?a
               (st2\<lparr>chain_to_pbid := (chain_to_pbid st2)(?a \<mapsto> i0)\<rparr>) = Inr st"
      by blast
    from g0 gi r' az have ii: "i0 = i" by simp
    have "chain_to_abundance st1 a = None \<or> i \<noteq> ''NA''"
      using st1 az by (auto simp: record_abundance_def pbid_of_def split: if_splits)
    with fin show ?thesis
      using record_abundance_consistent [OF c1, of a i st] by (simp add: ii s2 az)
  next
    case more
    then have az: "?a = a" "?z = z" and cs: "?cs = rev mid"
      by (simp_all add: butlast_append)
    from assms(2) more have dm: "distinct (rev mid)" and zm: "z \<notin> set mid" and am: "a \<notin> set mid"
      and anz: "a \<noteq> z"
      by auto
    from d1 zm az have dj: "set (rev mid) \<inter> dom (chain_to_abundance st1) = {}"
      by auto
    from w cs have w': "walk d info (rev mid) r0 st1 = Inr (saw, r', st2)" by simp
    from walk_consistent [OF c1 dm dj w']
    have c2: "consistent info st2"
      and d2: "dom (chain_to_abundance st2) \<subseteq> dom (chain_to_abundance st1) \<union> set (rev mid)"
      by simp_all
    show ?thesis
    proof (cases saw)
      case True
      with fa c2 show ?thesis by simp
    next
      case False
      with fb obtain i0 where
        fin: "record_abundance info ?a
               (st2\<lparr>chain_to_pbid := (chain_to_pbid st2)(?a \<mapsto> i0)\<rparr>) = Inr st"
        by blast
      from d2 d1 az am anz have "a \<notin> dom (chain_to_abundance st2)"
        by auto
      then have "chain_to_abundance st2 a = None \<or> i0 \<noteq> ''NA''" by auto
      with fin show ?thesis
        using record_abundance_consistent [OF c2, of a i0 st] by (simp add: az)
    qed
  qed
qed

lemma is_digit_digit_char: "is_digit (digit_char d)"
  unfolding is_digit_def digit_char_def by (rule nth_mem) simp

lemma digit_char_not_e: "digit_char d \<noteq> CHR ''e''"
proof
  assume "digit_char d = CHR ''e''"
  with is_digit_digit_char [of d] have "is_digit (CHR ''e'')" by simp
  then show False by (simp add: is_digit_def)
qed

lemma exponent_str_head: "\<exists>t. exponent_str e = CHR ''e'' # t"
  by (simp add: exponent_str_def)

lemma not_digit_punct: "\<not> is_digit (CHR ''.'')" "\<not> is_digit (CHR ''-'')"
  by (simp_all add: is_digit_def)

lemma significant_digits_parts:
  assumes "sign = [] \<or> sign = ''-''"
  shows "significant_digits (sign @ mantissa_str m @ exponent_str e) = 5"
proof -
  obtain t where t: "exponent_str e = CHR ''e'' # t"
    using exponent_str_head by blast
  have tw: "takeWhile (\<lambda>c. c \<noteq> CHR ''e'') (mantissa_str m @ CHR ''e'' # t) = mantissa_str m"
    by (simp add: mantissa_str_def digit_char_not_e)
  have fl: "length (filter is_digit (mantissa_str m)) = 5"
    by (simp add: mantissa_str_def is_digit_digit_char not_digit_punct)
  from assms show ?thesis
  proof
    assume "sign = []"
    then show ?thesis
      by (simp add: significant_digits_def t tw fl)
  next
    assume "sign = ''-''"
    then show ?thesis
      by (simp add: significant_digits_def t tw fl not_digit_punct)
  qed
qed

lemma format_4e_zero: "format_4e 0 = [] @ mantissa_str 0 @ exponent_str 0"
  by (simp add: format_4e_def mantissa_str_def exponent_str_def digit_char_def)

lemma format_4e_nonzero:
  assumes "v \<noteq> 0"
  shows "format_4e v =
    (if v < 0 then ''-'' else []) @
    mantissa_str (if nat (round_half_even (\<bar>v\<bar> / pow10 (decimal_exponent \<bar>v\<bar> - 4))) = 100000
                  then 10000
                  else nat (round_half_even (\<bar>v\<bar> / pow10 (decimal_exponent \<bar>v\<bar> - 4)))) @
    exponent_str (if nat (round_half_even (\<bar>v\<bar> / pow10 (decimal_exponent \<bar>v\<bar> - 4))) = 100000
                  then decimal_exponent \<bar>v\<bar> + 1
                  else decimal_exponent \<bar>v\<bar>)"
  using assms unfolding format_4e_def Let_def by (simp only: if_False split: if_split) simp

lemma format_4e_parts:
  "\<exists>sign m e. (sign = [] \<or> sign = ''-'') \<and> format_4e v = sign @ mantissa_str m @ exponent_str e"
proof (cases "v = 0")
  case True
  with format_4e_zero show ?thesis by blast
next
  case False
  note nz = format_4e_nonzero [OF this]
  show ?thesis
  proof (cases "v < 0")
    case True
    with nz have "\<exists>m e. format_4e v = ''-'' @ mantissa_str m @ exponent_str e"
      by (simp only: if_True) (intro exI, rule refl)
    then show ?thesis by blast
  next
    case False
    with nz have "\<exists>m e. format_4e v = [] @ mantissa_str m @ exponent_str e"
      by (simp only: if_False) (intro exI, rule refl)
    then show ?thesis by blast
  qed
qed

lemma format_4e_significant_digits: "significant_digits (format_4e v) = 5"
proof -
  obtain sign m e where s: "sign = [] \<or> sign = ''-''"
    and f: "format_4e v = sign @ mantissa_str m @ exponent_str e"
    using format_4e_parts by blast
  show ?thesis
    unfolding f using s by (rule significant_digits_parts)
qed

lemma quotient_of_eighth: "quotient_of (1 / 8) = (1, 8)"
proof -
  have f: "(1 / 8 :: rat) = Fract 1 8"
    by (simp add: Fract_of_int_quotient)
  have "quotient_of (Fract 1 8) = (1, 8)"
    by (simp add: quotient_of_Fract Rat.normalize_def)
  then show ?thesis
    by (simp only: f)
qed

lemma decimal_exponent_eighth: "decimal_exponent (1 / 8) = - 1"
  by (simp add: decimal_exponent_def quotient_of_eighth pow10_def digit_char_def)

lemma decimal_exponent_thirty: "decimal_exponent 30 = 1"
  by (simp add: decimal_exponent_def pow10_def digit_char_def)

lemma format_4e_eighth: "format_4e (1 / 8) = ''1.2500e-01''"
  by (simp add: format_4e_def decimal_exponent_eighth pow10_def round_half_even_def
      mantissa_str_def exponent_str_def digit_char_def Let_def)

lemma format_4e_thirty: "format_4e 30 = ''3.0000e+01''"
  by (simp add: format_4e_def decimal_exponent_thirty pow10_def round_half_even_def
      mantissa_str_def exponent_str_def digit_char_def Let_def)

lemma significant_digits_eighth: "significant_digits ''1.2500e-01'' = 5"
  by (simp add: significant_digits_def is_digit_def)

text \<open>
  C6, as the code has it.  For a row whose resolution succeeds and any sample, the cell
  written to the abundance table is \<^verbatim>\<open>NA\<close> or the text \<^verbatim>\<open>"%.4e" % n\<close> of an abundance
  \<open>n\<close> that the abundance table holds under the sample's name and an id other than
  \<^verbatim>\<open>NA\<close>; when the sample names are distinct, the cell is \<^verbatim>\<open>NA\<close> exactly when the id
  written for the sample in the id table is, and otherwise formats the abundance the
  table holds under the sample's name and that id.  The two lines of the row are the
  pbid followed by these cells.  The format shows one digit before the point and four
  after it, five significant digits, then the exponent.
\<close>

theorem chained_count_cell:
  assumes "resolve_row mega_info_d info names r0 = Inr st"
  shows "(count_cell st c = ''NA'' \<or>
          (\<exists>i v. i \<noteq> ''NA'' \<and> info (c, i) = Some v \<and> count_cell st c = format_4e v)) \<and>
         (distinct names \<longrightarrow>
            (ids_cell st c = ''NA'' \<longrightarrow> count_cell st c = ''NA'') \<and>
            (ids_cell st c \<noteq> ''NA'' \<longrightarrow>
               (\<exists>v. info (c, ids_cell st c) = Some v \<and> count_cell st c = format_4e v))) \<and>
         (getitem r0 ''pbid'' = Inr p \<longrightarrow>
            chain_row mega_info_d info names r0 =
              Inr (table_line p (map (ids_cell st) names),
                   table_line p (map (count_cell st) names))) \<and>
         significant_digits (format_4e v) = 5 \<and>
         (\<exists>sign m e. (sign = [] \<or> sign = ''-'') \<and>
            format_4e v = sign @ mantissa_str m @ exponent_str e)"
proof (intro conjI impI)
  from resolve_row_looked_up [OF assms]
  have "chain_to_abundance st c = Some w \<Longrightarrow> \<exists>i. i \<noteq> ''NA'' \<and> info (c, i) = Some w" for w
    unfolding looked_up_def by blast
  then show "count_cell st c = ''NA'' \<or>
      (\<exists>i v. i \<noteq> ''NA'' \<and> info (c, i) = Some v \<and> count_cell st c = format_4e v)"
    by (cases "chain_to_abundance st c") (auto simp: count_cell_def)
next
  assume "distinct names"
  with assms have "consistent info st" by (rule resolve_row_consistent)
  then have na: "pbid_of st c = ''NA'' \<Longrightarrow> chain_to_abundance st c = None"
    and id: "pbid_of st c \<noteq> ''NA'' \<Longrightarrow>
      \<exists>w. chain_to_abundance st c = Some w \<and> info (c, pbid_of st c) = Some w"
    unfolding consistent_def by blast+
  { assume "ids_cell st c = ''NA''"
    with na show "count_cell st c = ''NA''"
      by (simp add: ids_cell_def count_cell_def) }
  { assume "ids_cell st c \<noteq> ''NA''"
    with id show "\<exists>v. info (c, ids_cell st c) = Some v \<and> count_cell st c = format_4e v"
      by (auto simp: ids_cell_def count_cell_def) }
next
  assume "getitem r0 ''pbid'' = Inr p"
  with assms show "chain_row mega_info_d info names r0 =
      Inr (table_line p (map (ids_cell st) names), table_line p (map (count_cell st) names))"
    by (simp add: chain_row_def)
next
  show "significant_digits (format_4e v) = 5"
    by (rule format_4e_significant_digits)
next
  show "\<exists>sign m e. (sign = [] \<or> sign = ''-'') \<and>
      format_4e v = sign @ mantissa_str m @ exponent_str e"
    by (rule format_4e_parts)
qed

theorem chained_count_cell_witness:
  "(let names = [''A'', ''B''];
        r0 = [''pbid'' \<mapsto> ''PB.1.1'', ''A'' \<mapsto> ''PB.1.1'', ''B'' \<mapsto> ''NA''];
        info = [(''A'', ''PB.1.1'') \<mapsto> 1 / 8];
        st = \<lparr>chain_to_pbid = [''B'' \<mapsto> ''NA'', ''A'' \<mapsto> ''PB.1.1''],
              chain_to_abundance = [''A'' \<mapsto> 1 / 8]\<rparr>
    in resolve_row Map.empty info names r0 = Inr st \<and> distinct names \<and>
       ids_cell st ''A'' = ''PB.1.1'' \<and> count_cell st ''A'' = ''1.2500e-01'' \<and>
       ids_cell st ''B'' = ''NA'' \<and> count_cell st ''B'' = ''NA'' \<and>
       chain_row Map.empty info names r0 =
         Inr (table_line ''PB.1.1'' [''PB.1.1'', ''NA''],
              table_line ''PB.1.1'' [''1.2500e-01'', ''NA'']) \<and>
       significant_digits (format_4e (1 / 8)) = 5)"
proof -
  let ?names = "[''A'', ''B'']"
  let ?r0 = "[''pbid'' \<mapsto> ''PB.1.1'', ''A'' \<mapsto> ''PB.1.1'', ''B'' \<mapsto> ''NA'']"
  let ?info = "[(''A'', ''PB.1.1'') \<mapsto> 1 / 8 :: rat]"
  let ?st = "\<lparr>chain_to_pbid = [''B'' \<mapsto> ''NA'', ''A'' \<mapsto> ''PB.1.1''],
              chain_to_abundance = [''A'' \<mapsto> 1 / 8 :: rat]\<rparr>"
  have rr: "resolve_row Map.empty ?info ?names ?r0 = Inr ?st"
    by (simp add: resolve_row_def getitem_def record_abundance_def pbid_of_def)
  have dist: "distinct ?names" by simp
  have pb: "getitem ?r0 ''pbid'' = Inr ''PB.1.1''"
    by (simp add: getitem_def)
  have idA: "ids_cell ?st ''A'' = ''PB.1.1''" and idB: "ids_cell ?st ''B'' = ''NA''"
    by (simp_all add: ids_cell_def pbid_of_def)
  note t = chained_count_cell [OF rr, where p = "''PB.1.1''" and v = "1 / 8"]
  from t [of "''A''"] dist idA
  obtain v where v: "?info (''A'', ''PB.1.1'') = Some v" "count_cell ?st ''A'' = format_4e v"
    by auto
  have "?info (''A'', ''PB.1.1'') = Some (1 / 8)"
    by simp
  with v have cA: "count_cell ?st ''A'' = ''1.2500e-01''"
    by (metis option.inject format_4e_eighth)
  from t [of "''B''"] dist idB have cB: "count_cell ?st ''B'' = ''NA''"
    by blast
  from t [of "''A''"] pb
  have "chain_row Map.empty ?info ?names ?r0 =
      Inr (table_line ''PB.1.1'' (map (ids_cell ?st) ?names),
           table_line ''PB.1.1'' (map (count_cell ?st) ?names))"
    by blast
  then have cr: "chain_row Map.empty ?info ?names ?r0 =
         Inr (table_line ''PB.1.1'' [''PB.1.1'', ''NA''],
              table_line ''PB.1.1'' [''1.2500e-01'', ''NA''])"
    by (simp add: idA idB cA cB)
  from t [of "''A''"] have sd: "significant_digits (format_4e (1 / 8)) = 5"
    by blast
  from rr dist idA cA idB cB cr sd show ?thesis
    unfolding Let_def by (intro conjI)
qed

text \<open>
  C6 as it is stated fails on the code: the abundance \<open>1/8\<close> is written as
  \<^verbatim>\<open>1.2500e-01\<close>, which has five significant digits, not four.
\<close>

theorem chained_count_cell_counterexample:
  "chain_row Map.empty [(''A'', ''PB.1.1'') \<mapsto> 1 / 8] [''A'', ''B'']
     [''pbid'' \<mapsto> ''PB.1.1'', ''A'' \<mapsto> ''PB.1.1'', ''B'' \<mapsto> ''NA''] =
     Inr (table_line ''PB.1.1'' [''PB.1.1'', ''NA''],
          table_line ''PB.1.1'' [''1.2500e-01'', ''NA'']) \<and>
   significant_digits ''1.2500e-01'' = 5 \<and>
   significant_digits ''1.2500e-01'' \<noteq> 4"
proof -
  have "chain_row Map.empty [(''A'', ''PB.1.1'') \<mapsto> 1 / 8] [''A'', ''B'']
     [''pbid'' \<mapsto> ''PB.1.1'', ''A'' \<mapsto> ''PB.1.1'', ''B'' \<mapsto> ''NA''] =
     Inr (table_line ''PB.1.1'' [''PB.1.1'', ''NA''],
          table_line ''PB.1.1'' [''1.2500e-01'', ''NA''])"
    by (simp add: chain_row_def resolve_row_def getitem_def record_abundance_def pbid_of_def
        ids_cell_def count_cell_def format_4e_eighth)
  moreover have "significant_digits ''1.2500e-01'' = 5"
    by (simp add: significant_digits_def is_digit_def)
  ultimately show ?thesis by simp
qed

end
